theory Spec2Isabelle
  imports Main "HOL-Library.AList" "HOL-Library.Word"
begin

section \<open>Errors raised by the program\<close>

text \<open>
  The two exceptions the modelled functions can raise: \<open>graph.neighbors(n)\<close> raises
  NetworkXError when \<open>n\<close> is not a node of the graph, and \<open>single_line.coords[0]\<close>
  raises IndexError on a line without coordinates.
\<close>

datatype error = NetworkXError | IndexError

section \<open>The graph object\<close>

text \<open>
  A \<open>networkx.Graph\<close> keeps its adjacency as a dict of dicts, \<open>_adj[u][v] = attributes\<close>,
  both levels ordered by insertion. The model is an association list of association lists.
\<close>

type_synonym ('n, 'a) nxgraph = "('n \<times> ('n \<times> 'a) list) list"

definition has_node :: "('n, 'a) nxgraph \<Rightarrow> 'n \<Rightarrow> bool" where
  \<comment> \<open>\<open>n in graph\<close>\<close>
  "has_node g n = (map_of g n \<noteq> None)"

definition neighbors :: "('n, 'a) nxgraph \<Rightarrow> 'n \<Rightarrow> error + 'n list" where
  \<comment> \<open>\<open>graph.neighbors(n)\<close>: the keys of \<open>_adj[n]\<close> in stored order, or NetworkXError\<close>
  "neighbors g n = (case map_of g n of None \<Rightarrow> Inl NetworkXError | Some nbrs \<Rightarrow> Inr (map fst nbrs))"

section \<open>Pathfinder: \<open>bfs_shortest_path\<close>\<close>

text \<open>
  The inner \<open>for neighbor in graph.neighbors(current_node)\<close> loop: every neighbour not yet
  visited is added to \<open>visited\<close> and appended to the queue with its path.
\<close>

fun visit_neighbors ::
  "'n list \<Rightarrow> 'n list \<Rightarrow> 'n set \<times> ('n \<times> 'n list) list \<Rightarrow> 'n set \<times> ('n \<times> 'n list) list" where
  "visit_neighbors path [] (visited, queue) = (visited, queue)"
| "visit_neighbors path (neighbor # rest) (visited, queue) =
     (if neighbor \<notin> visited
      then visit_neighbors path rest (insert neighbor visited, queue @ [(neighbor, path @ [neighbor])])
      else visit_neighbors path rest (visited, queue))"

text \<open>All node ids that occur anywhere in the adjacency structure.\<close>

definition mentioned :: "('n, 'a) nxgraph \<Rightarrow> 'n set" where
  "mentioned g = fst ` set g \<union> (\<Union>(u, nbrs) \<in> set g. fst ` set nbrs)"

lemma finite_mentioned: "finite (mentioned g)"
  by (auto simp: mentioned_def)

lemma neighbors_mentioned: "neighbors g n = Inr ns \<Longrightarrow> set ns \<subseteq> mentioned g"
  by (force simp: neighbors_def mentioned_def split: option.splits dest: map_of_SomeD)

lemma visit_neighbors_measure:
  "visit_neighbors path ns (visited, queue) = (visited', queue') \<Longrightarrow> finite U \<Longrightarrow> set ns \<subseteq> U \<Longrightarrow>
   card (U - visited') + length queue' = card (U - visited) + length queue \<and> visited \<subseteq> visited'"
proof (induction ns arbitrary: visited queue)
  case Nil
  then show ?case by simp
next
  case (Cons n ns)
  show ?case
  proof (cases "n \<in> visited")
    case True
    with Cons.prems have "visit_neighbors path ns (visited, queue) = (visited', queue')" by simp
    from Cons.IH [OF this] Cons.prems show ?thesis by simp
  next
    case False
    with Cons.prems have step:
      "visit_neighbors path ns (insert n visited, queue @ [(n, path @ [n])]) = (visited', queue')"
      by simp
    from Cons.prems have "n \<in> U" "set ns \<subseteq> U" by auto
    from Cons.IH [OF step \<open>finite U\<close> \<open>set ns \<subseteq> U\<close>]
    have ih: "card (U - visited') + length queue' = card (U - insert n visited) + Suc (length queue)"
      and sub: "insert n visited \<subseteq> visited'" by simp_all
    define A where "A = U - visited"
    have A: "finite A" "n \<in> A" using False \<open>n \<in> U\<close> \<open>finite U\<close> by (simp_all add: A_def)
    then have "card (A - {n}) = card A - 1" "0 < card A"
      by (simp_all add: card_gt_0_iff) blast
    moreover have "U - insert n visited = A - {n}" unfolding A_def by blast
    ultimately have "Suc (card (U - insert n visited)) = card (U - visited)"
      unfolding A_def by simp
    with ih have "card (U - visited') + length queue' = card (U - visited) + length queue" by simp
    with sub show ?thesis by blast
  qed
qed

text \<open>
  The \<open>while queue:\<close> loop. \<open>queue.popleft()\<close> takes the head of the list; the loop ends
  with the path when the popped node is the target and with None when the queue is empty.
\<close>

function bfs_loop ::
  "('n, 'a) nxgraph \<Rightarrow> 'n \<Rightarrow> ('n \<times> 'n list) list \<Rightarrow> 'n set \<Rightarrow> error + 'n list option" where
  "bfs_loop g end_node [] visited = Inr None"
| "bfs_loop g end_node ((current_node, path) # queue) visited =
     (if current_node = end_node then Inr (Some path)
      else (case neighbors g current_node of
              Inl e \<Rightarrow> Inl e
            | Inr ns \<Rightarrow>
                (case visit_neighbors path ns (visited, queue) of
                   (visited', queue') \<Rightarrow> bfs_loop g end_node queue' visited')))"
  by pat_completeness auto
termination
proof (relation "measure (\<lambda>(g, end_node, queue, visited).
                   2 * card (mentioned g - visited) + length queue)", goal_cases)
  case 1
  then show ?case by simp
next
  case (2 g end_node current_node path queue visited ns visited' queue')
  then have v: "visit_neighbors path ns (visited, queue) = (visited', queue')" by simp
  from 2 have "set ns \<subseteq> mentioned g" by (simp add: neighbors_mentioned)
  from visit_neighbors_measure [OF v finite_mentioned this]
  have eq: "card (mentioned g - visited') + length queue' = card (mentioned g - visited) + length queue"
    and sub: "visited \<subseteq> visited'" by simp_all
  have "card (mentioned g - visited') \<le> card (mentioned g - visited)"
    using sub by (intro card_mono) (auto simp: finite_mentioned)
  with eq show ?case by simp
qed

definition bfs_shortest_path :: "('n, 'a) nxgraph \<Rightarrow> 'n \<Rightarrow> 'n \<Rightarrow> error + 'n list option" where
  "bfs_shortest_path graph start_node end_node =
     (if start_node = end_node then Inr (Some [start_node])
      else if \<not> has_node graph start_node \<or> \<not> has_node graph end_node then Inr None
      else bfs_loop graph end_node [(start_node, [start_node])] {start_node})"

section \<open>Routes in a graph\<close>

definition has_edge :: "('n, 'a) nxgraph \<Rightarrow> 'n \<Rightarrow> 'n \<Rightarrow> bool" where
  \<comment> \<open>\<open>graph.has_edge(u, v)\<close>: \<open>v in _adj[u]\<close>, False when \<open>u\<close> is no node\<close>
  "has_edge g u v = (case map_of g u of None \<Rightarrow> False | Some nbrs \<Rightarrow> map_of nbrs v \<noteq> None)"

fun walk :: "('n, 'a) nxgraph \<Rightarrow> 'n list \<Rightarrow> bool" where
  "walk g [] = False"
| "walk g [v] = has_node g v"
| "walk g (u # v # p) = (has_edge g u v \<and> walk g (v # p))"

definition route :: "('n, 'a) nxgraph \<Rightarrow> 'n \<Rightarrow> 'n \<Rightarrow> 'n list \<Rightarrow> bool" where
  "route g s e p = (walk g p \<and> hd p = s \<and> last p = e)"

definition nx_graph :: "('n, 'a) nxgraph \<Rightarrow> bool" where
  "nx_graph g =
     (distinct (map fst g) \<and>
      list_all (\<lambda>(u, nbrs). distinct (map fst nbrs) \<and>
         list_all (\<lambda>(v, a). case map_of g v of None \<Rightarrow> False
                                | Some nbrs' \<Rightarrow> map_of nbrs' u = Some a) nbrs) g)"

lemma neighbors_has_edge:
  assumes "neighbors g u = Inr ns"
  shows "has_edge g u v \<longleftrightarrow> v \<in> set ns"
proof -
  from assms obtain nbrs where "map_of g u = Some nbrs" "ns = map fst nbrs"
    by (auto simp: neighbors_def split: option.splits)
  then show ?thesis by (simp add: has_edge_def map_of_eq_None_iff)
qed

lemma has_edge_has_node: "has_edge g u v \<Longrightarrow> has_node g u"
  by (auto simp: has_edge_def has_node_def split: option.splits)

lemma has_node_neighbors: "has_node g u \<Longrightarrow> \<exists>ns. neighbors g u = Inr ns"
  by (auto simp: neighbors_def has_node_def)

lemma nx_graph_closed: "nx_graph g \<Longrightarrow> has_edge g u v \<Longrightarrow> has_node g v"
proof -
  assume g: "nx_graph g" and e: "has_edge g u v"
  from e obtain nbrs a where 1: "map_of g u = Some nbrs" and 2: "map_of nbrs v = Some a"
    by (auto simp: has_edge_def split: option.splits)
  then have "(u, nbrs) \<in> set g" "(v, a) \<in> set nbrs" by (auto dest: map_of_SomeD)
  with g have "case map_of g v of None \<Rightarrow> False | Some nbrs' \<Rightarrow> map_of nbrs' u = Some a"
    unfolding nx_graph_def list_all_iff by blast
  then show ?thesis by (auto simp: has_node_def split: option.splits)
qed

lemma nx_graph_symmetric: "nx_graph g \<Longrightarrow> has_edge g u v \<Longrightarrow> has_edge g v u"
proof -
  assume g: "nx_graph g" and e: "has_edge g u v"
  from e obtain nbrs a where 1: "map_of g u = Some nbrs" and 2: "map_of nbrs v = Some a"
    by (auto simp: has_edge_def split: option.splits)
  then have "(u, nbrs) \<in> set g" "(v, a) \<in> set nbrs" by (auto dest: map_of_SomeD)
  with g have "case map_of g v of None \<Rightarrow> False | Some nbrs' \<Rightarrow> map_of nbrs' u = Some a"
    unfolding nx_graph_def list_all_iff by blast
  then show ?thesis by (auto simp: has_edge_def split: option.splits)
qed

lemma walk_nonempty: "walk g p \<Longrightarrow> p \<noteq> []"
  by auto

lemma walk_last_node: "walk g p \<Longrightarrow> has_node g (last p)"
  by (induction g p rule: walk.induct) auto

lemma walk_Cons: "walk g p \<Longrightarrow> has_edge g u (hd p) \<Longrightarrow> walk g (u # p)"
  by (cases p) auto

lemma walk_snoc: "walk g p \<Longrightarrow> has_edge g (last p) v \<Longrightarrow> has_node g v \<Longrightarrow> walk g (p @ [v])"
  by (induction g p rule: walk.induct) auto

lemma walk_stays:
  "walk g p \<Longrightarrow> hd p \<in> V \<Longrightarrow> (\<And>x y. x \<in> V \<Longrightarrow> has_edge g x y \<Longrightarrow> y \<in> V) \<Longrightarrow> last p \<in> V"
  by (induction g p rule: walk.induct) auto

lemma walk_leaves:
  "walk g q \<Longrightarrow> hd q \<in> V \<Longrightarrow> last q \<notin> V \<Longrightarrow>
   \<exists>q1 x y q2. q = q1 @ x # y # q2 \<and> x \<in> V \<and> y \<notin> V \<and> has_edge g x y \<and>
                walk g (q1 @ [x]) \<and> hd (q1 @ [x]) = hd q"
proof (induction g q rule: walk.induct)
  case (1 g)
  then show ?case by simp
next
  case (2 g v)
  then show ?case by simp
next
  case (3 g u v p)
  show ?case
  proof (cases "v \<in> V")
    case False
    have "u # v # p = [] @ u # v # p" by simp
    moreover have "walk g ([] @ [u])" using "3.prems"(1) has_edge_has_node [of g u v] by simp
    ultimately show ?thesis using False "3.prems" by (metis append_Nil list.sel(1) walk.simps(3))
  next
    case True
    with "3.IH" "3.prems" obtain q1 x y q2 where q: "v # p = q1 @ x # y # q2" and x: "x \<in> V" "y \<notin> V"
      "has_edge g x y" and w: "walk g (q1 @ [x])" and h: "hd (q1 @ [x]) = v"
      by auto
    from w h "3.prems"(1) have "walk g (u # q1 @ [x])" by (simp add: walk_Cons)
    moreover have "u # v # p = (u # q1) @ x # y # q2" using q by simp
    ultimately show ?thesis using x by (metis append_Cons list.sel(1))
  qed
qed

lemma visit_neighbors_result:
  "visit_neighbors p ns (V, Q) = (V', Q') \<Longrightarrow>
   V' = V \<union> set ns \<and> (\<exists>new. Q' = Q @ map (\<lambda>n. (n, p @ [n])) new \<and> set new = set ns - V)"
proof (induction ns arbitrary: V Q)
  case Nil
  then show ?case by simp
next
  case (Cons n ns)
  show ?case
  proof (cases "n \<in> V")
    case True
    with Cons.prems have "visit_neighbors p ns (V, Q) = (V', Q')" by simp
    from Cons.IH [OF this] obtain new where
      "V' = V \<union> set ns" "Q' = Q @ map (\<lambda>n. (n, p @ [n])) new" "set new = set ns - V" by blast
    with True have "V' = V \<union> set (n # ns)" "Q' = Q @ map (\<lambda>n. (n, p @ [n])) new"
      "set new = set (n # ns) - V" by auto
    then show ?thesis by blast
  next
    case False
    with Cons.prems have "visit_neighbors p ns (insert n V, Q @ [(n, p @ [n])]) = (V', Q')" by simp
    from Cons.IH [OF this] obtain new where
      "V' = insert n V \<union> set ns" "Q' = (Q @ [(n, p @ [n])]) @ map (\<lambda>n. (n, p @ [n])) new"
      "set new = set ns - insert n V" by blast
    with False have "V' = V \<union> set (n # ns)" "Q' = Q @ map (\<lambda>n. (n, p @ [n])) (n # new)"
      "set (n # new) = set (n # ns) - V" by auto
    then show ?thesis by blast
  qed
qed

definition bfs_inv ::
  "('n, 'a) nxgraph \<Rightarrow> 'n \<Rightarrow> 'n \<Rightarrow> ('n \<times> 'n list) list \<Rightarrow> 'n set \<Rightarrow> bool" where
  "bfs_inv g s e Q V \<longleftrightarrow>
     (\<forall>(v, p) \<in> set Q. route g s v p \<and> (\<forall>q. route g s v q \<longrightarrow> length p \<le> length q)) \<and>
     s \<in> V \<and> fst ` set Q \<subseteq> V \<and>
     sorted (map (\<lambda>(v, p). length p) Q) \<and>
     (\<forall>(v, p) \<in> set Q. \<forall>(v', p') \<in> set Q. length p' \<le> Suc (length p)) \<and>
     (\<forall>x \<in> V. x \<notin> fst ` set Q \<longrightarrow> (\<forall>y. has_edge g x y \<longrightarrow> y \<in> V)) \<and>
     (e \<in> V \<longrightarrow> e \<in> fst ` set Q)"

lemma bfs_inv_init:
  assumes "has_node g s" "s \<noteq> e"
  shows "bfs_inv g s e [(s, [s])] {s}"
proof -
  have "route g s s [s]" using assms by (simp add: route_def)
  moreover have "\<And>q. route g s s q \<Longrightarrow> length [s] \<le> length q"
    by (auto simp: route_def dest: walk_nonempty simp: Suc_le_eq)
  ultimately show ?thesis using assms by (simp add: bfs_inv_def)
qed

lemma bfs_inv_step:
  assumes closed: "\<And>x y. has_edge g x y \<Longrightarrow> has_node g y"
    and inv: "bfs_inv g s e ((u, p) # rest) V"
    and ne: "u \<noteq> e"
    and nb: "neighbors g u = Inr ns"
    and vn: "visit_neighbors p ns (V, rest) = (V', Q')"
  shows "bfs_inv g s e Q' V'"
proof -
  let ?Q = "(u, p) # rest"
  from inv have I1: "\<And>v r. (v, r) \<in> set ?Q \<Longrightarrow> route g s v r"
    and I1': "\<And>v r q. (v, r) \<in> set ?Q \<Longrightarrow> route g s v q \<Longrightarrow> length r \<le> length q"
    and I2: "s \<in> V" "fst ` set ?Q \<subseteq> V"
    and I3: "sorted (map (\<lambda>(v, p). length p) ?Q)"
    and I3': "\<And>v1 r1 v2 r2. (v1, r1) \<in> set ?Q \<Longrightarrow> (v2, r2) \<in> set ?Q \<Longrightarrow> length r2 \<le> Suc (length r1)"
    and I4: "\<And>x y. x \<in> V \<Longrightarrow> x \<notin> fst ` set ?Q \<Longrightarrow> has_edge g x y \<Longrightarrow> y \<in> V"
    and I5: "e \<in> V \<Longrightarrow> e \<in> fst ` set ?Q"
    unfolding bfs_inv_def by blast+
  from visit_neighbors_result [OF vn] obtain new where
    V': "V' = V \<union> set ns" and Q': "Q' = rest @ map (\<lambda>n. (n, p @ [n])) new"
    and new: "set new = set ns - V" by blast
  have setQ': "set Q' = set rest \<union> (\<lambda>n. (n, p @ [n])) ` (set ns - V)"
    using Q' new by simp
  have rp: "route g s u p" using I1 by simp
  have head_min: "\<And>v r. (v, r) \<in> set ?Q \<Longrightarrow> length p \<le> length r"
    using I3 by auto
  \<comment> \<open>the paths of the new queue entries are routes, and shortest ones\<close>
  have new_route: "route g s n (p @ [n])" if "n \<in> set ns" for n
  proof -
    have e: "has_edge g u n" using that nb by (simp add: neighbors_has_edge)
    then have "has_node g n" by (rule closed)
    with rp e have "walk g (p @ [n])" by (simp add: route_def walk_snoc)
    moreover have "p \<noteq> []" using rp by (auto simp: route_def)
    ultimately show ?thesis using rp by (simp add: route_def)
  qed
  have new_short: "length (p @ [n]) \<le> length q" if "n \<notin> V" "route g s n q" for n q
  proof -
    from that I2 have "walk g q" "hd q \<in> V" "last q \<notin> V" by (simp_all add: route_def)
    from walk_leaves [OF this] obtain q1 x y q2 where
      q: "q = q1 @ x # y # q2" and x: "x \<in> V" "y \<notin> V" "has_edge g x y"
      and w: "walk g (q1 @ [x])" "hd (q1 @ [x]) = hd q" by blast
    from x I4 have "x \<in> fst ` set ?Q" by blast
    then obtain r where r: "(x, r) \<in> set ?Q" by force
    have "route g s x (q1 @ [x])" using w that by (simp add: route_def)
    with r have "length r \<le> length (q1 @ [x])" by (rule I1')
    moreover from r have "length p \<le> length r" by (rule head_min)
    ultimately show ?thesis using q by simp
  qed
  have J1: "\<forall>(v, r) \<in> set Q'. route g s v r \<and> (\<forall>q. route g s v q \<longrightarrow> length r \<le> length q)"
  proof (clarify, intro conjI allI impI)
    fix v r assume "(v, r) \<in> set Q'"
    then consider "(v, r) \<in> set rest" | "v \<in> set ns" "v \<notin> V" "r = p @ [v]"
      unfolding setQ' by blast
    note cases = this
    show "route g s v r" using cases
    proof cases
      case 1 then show ?thesis using I1 by simp
    next
      case 2 then show ?thesis using new_route by simp
    qed
    fix q assume "route g s v q"
    with cases show "length r \<le> length q"
    proof cases
      case 1 then show ?thesis using I1' [of v r q] \<open>route g s v q\<close> by simp
    next
      case 2 then show ?thesis using new_short [of v q] \<open>route g s v q\<close> by simp
    qed
  qed
  have J2: "s \<in> V'" "fst ` set Q' \<subseteq> V'"
    using I2 unfolding V' setQ' by auto
  have rest_le: "length r \<le> Suc (length p)" if "(v, r) \<in> set rest" for v r
    using I3' [of u p v r] that by simp
  have rest_ge: "length p \<le> length r" if "(v, r) \<in> set rest" for v r
    using head_min [of v r] that by simp
  have J3: "sorted (map (\<lambda>(v, p). length p) Q')"
  proof -
    have "sorted (map (\<lambda>(v, p). length p) rest)" using I3 by simp
    moreover have "sorted (map (\<lambda>(v, p). length p) (map (\<lambda>n. (n, p @ [n])) new))"
      by (simp add: comp_def sorted_iff_nth_mono)
    moreover have "\<forall>a \<in> set (map (\<lambda>(v, p). length p) rest).
        \<forall>b \<in> set (map (\<lambda>(v, p). length p) (map (\<lambda>n. (n, p @ [n])) new)). a \<le> b"
      using rest_le by auto
    ultimately show ?thesis unfolding Q' map_append by (simp only: sorted_append) 
  qed
  have J3': "\<forall>(v, r) \<in> set Q'. \<forall>(v', r') \<in> set Q'. length r' \<le> Suc (length r)"
  proof (clarify)
    fix v r v' r' assume "(v, r) \<in> set Q'" "(v', r') \<in> set Q'"
    then have a: "(v, r) \<in> set rest \<or> length r = Suc (length p)"
      and b: "(v', r') \<in> set rest \<or> length r' = Suc (length p)"
      unfolding setQ' by auto
    from a b show "length r' \<le> Suc (length r)"
      using rest_le [of v' r'] rest_ge [of v r] I3' [of v r v' r'] by auto
  qed
  have J4: "\<forall>x \<in> V'. x \<notin> fst ` set Q' \<longrightarrow> (\<forall>y. has_edge g x y \<longrightarrow> y \<in> V')"
  proof (intro ballI impI allI)
    fix x y assume x: "x \<in> V'" "x \<notin> fst ` set Q'" and e: "has_edge g x y"
    have "x \<in> V" using x unfolding V' setQ' by force
    have nr: "x \<notin> fst ` set rest" using x unfolding setQ' by auto
    show "y \<in> V'"
    proof (cases "x = u")
      case True
      with e nb have "y \<in> set ns" by (simp add: neighbors_has_edge)
      then show ?thesis by (simp add: V')
    next
      case False
      with nr have "x \<notin> fst ` set ?Q" by auto
      with \<open>x \<in> V\<close> e have "y \<in> V" using I4 [of x y] by blast
      then show ?thesis by (simp add: V')
    qed
  qed
  have J5: "e \<in> V' \<longrightarrow> e \<in> fst ` set Q'"
  proof
    assume "e \<in> V'"
    then consider "e \<in> V" | "e \<in> set ns" "e \<notin> V" unfolding V' by blast
    then show "e \<in> fst ` set Q'"
    proof cases
      case 1
      with I5 ne have "e \<in> fst ` set rest" by auto
      then show ?thesis unfolding setQ' by auto
    next
      case 2
      then show ?thesis unfolding setQ' by force
    qed
  qed
  from J1 J2 J3 J3' J4 J5 show ?thesis unfolding bfs_inv_def by blast
qed

lemma bfs_inv_empty:
  "bfs_inv g s e [] V \<Longrightarrow> s \<in> V \<and> e \<notin> V \<and> (\<forall>x \<in> V. \<forall>y. has_edge g x y \<longrightarrow> y \<in> V)"
  by (simp add: bfs_inv_def)

lemma bfs_inv_head:
  "bfs_inv g s e ((u, p) # rest) V \<Longrightarrow>
   route g s u p \<and> (\<forall>q. route g s u q \<longrightarrow> length p \<le> length q)"
  by (simp add: bfs_inv_def)

lemma bfs_loop_correct:
  "(\<forall>x y. has_edge g x y \<longrightarrow> has_node g y) \<Longrightarrow> bfs_inv g s e Q V \<Longrightarrow>
   (\<exists>p. bfs_loop g e Q V = Inr (Some p) \<and> route g s e p \<and>
        (\<forall>q. route g s e q \<longrightarrow> length p \<le> length q)) \<or>
   (bfs_loop g e Q V = Inr None \<and> (\<forall>q. \<not> route g s e q))"
proof (induction g e Q V rule: bfs_loop.induct)
  case (1 g e V)
  from bfs_inv_empty [OF "1.prems"(2)] have s: "s \<in> V" and e: "e \<notin> V"
    and cl: "\<And>x y. x \<in> V \<Longrightarrow> has_edge g x y \<Longrightarrow> y \<in> V"
    by blast+
  have "\<not> route g s e q" for q
  proof
    assume "route g s e q"
    then have "walk g q" "hd q \<in> V" "last q = e" using s by (simp_all add: route_def)
    with walk_stays [of g q V] cl e show False by blast
  qed
  then show ?case by simp
next
  case (2 g e u p rest V)
  let ?Q = "(u, p) # rest"
  from bfs_inv_head [OF "2.prems"(2)] have r: "route g s u p"
    and sh: "\<And>q. route g s u q \<Longrightarrow> length p \<le> length q"
    by blast+
  show ?case
  proof (cases "u = e")
    case True
    have "bfs_loop g e ?Q V = Inr (Some p)" using True by simp
    with r sh True show ?thesis by blast
  next
    case False
    from r have "has_node g u" using walk_last_node [of g p] by (simp add: route_def)
    then obtain ns where ns: "neighbors g u = Inr ns" using has_node_neighbors [of g u] by blast
    obtain V' Q' where vn: "visit_neighbors p ns (V, rest) = (V', Q')"
      by (cases "visit_neighbors p ns (V, rest)")
    have cl: "has_edge g x y \<Longrightarrow> has_node g y" for x y
      using "2.prems"(1) by simp
    have "bfs_inv g s e Q' V'"
      using cl "2.prems"(2) False ns vn by (rule bfs_inv_step)
    from "2.IH" [OF False ns vn [symmetric] "2.prems"(1) this]
    have IH: "(\<exists>p. bfs_loop g e Q' V' = Inr (Some p) \<and> route g s e p \<and>
        (\<forall>q. route g s e q \<longrightarrow> length p \<le> length q)) \<or>
       (bfs_loop g e Q' V' = Inr None \<and> (\<forall>q. \<not> route g s e q))" .
    have "bfs_loop g e ?Q V = bfs_loop g e Q' V'" using False ns vn by simp
    with IH show ?thesis by simp
  qed
qed

section \<open>Properties of the pathfinder\<close>

text \<open>
  C1: on a well-formed undirected graph, for start and end nodes of the graph,
  \<open>bfs_shortest_path\<close> returns either a route from start to end (a sequence of nodes,
  start first and end last, consecutive nodes joined by an edge) that no route between them
  undercuts in length, or None, and None only when no route joins them. It never raises.
\<close>

theorem bfs_shortest_path_correct:
  assumes "nx_graph graph" "has_node graph start_node" "has_node graph end_node"
  shows "(\<exists>p. bfs_shortest_path graph start_node end_node = Inr (Some p) \<and>
              route graph start_node end_node p \<and>
              (\<forall>q. route graph start_node end_node q \<longrightarrow> length p \<le> length q)) \<or>
         (bfs_shortest_path graph start_node end_node = Inr None \<and>
              (\<forall>q. \<not> route graph start_node end_node q))"
proof (cases "start_node = end_node")
  case True
  have "route graph start_node start_node [start_node]" using assms by (simp add: route_def)
  moreover have "length [start_node] \<le> length q" if "route graph start_node start_node q" for q
    using that by (cases q) (simp_all add: route_def)
  ultimately show ?thesis using True by (auto simp: bfs_shortest_path_def)
next
  case False
  have cl: "\<forall>x y. has_edge graph x y \<longrightarrow> has_node graph y"
    using nx_graph_closed [OF assms(1)] by blast
  have "bfs_inv graph start_node end_node [(start_node, [start_node])] {start_node}"
    using assms False by (simp add: bfs_inv_init)
  from bfs_loop_correct [OF cl this] show ?thesis
    using assms False by (simp add: bfs_shortest_path_def)
qed

definition path_graph_ABCD :: "(char, unit) nxgraph" where
  "path_graph_ABCD =
     [(CHR ''A'', [(CHR ''B'', ())]),
      (CHR ''B'', [(CHR ''A'', ()), (CHR ''C'', ())]),
      (CHR ''C'', [(CHR ''B'', ()), (CHR ''D'', ())]),
      (CHR ''D'', [(CHR ''C'', ())]),
      (CHR ''E'', [])]"

lemma neighbors_path_graph_ABCD:
  "neighbors path_graph_ABCD CHR ''A'' = Inr ''B''"
  "neighbors path_graph_ABCD CHR ''B'' = Inr ''AC''"
  "neighbors path_graph_ABCD CHR ''C'' = Inr ''BD''"
  "neighbors path_graph_ABCD CHR ''D'' = Inr ''C''"
  "neighbors path_graph_ABCD CHR ''E'' = Inr []"
  by (simp_all add: path_graph_ABCD_def neighbors_def)

lemma has_node_path_graph_ABCD:
  "has_node path_graph_ABCD CHR ''A''" "has_node path_graph_ABCD CHR ''D''"
  "has_node path_graph_ABCD CHR ''E''"
  by (simp_all add: has_node_def path_graph_ABCD_def)

lemma bfs_ABCD: "bfs_shortest_path path_graph_ABCD CHR ''A'' CHR ''D'' = Inr (Some ''ABCD'')"
  by (simp add: bfs_shortest_path_def has_node_path_graph_ABCD neighbors_path_graph_ABCD)

lemma bfs_AE: "bfs_shortest_path path_graph_ABCD CHR ''A'' CHR ''E'' = Inr None"
  by (simp add: bfs_shortest_path_def has_node_path_graph_ABCD neighbors_path_graph_ABCD)

lemma nx_graph_path_graph_ABCD: "nx_graph path_graph_ABCD"
  by (simp add: nx_graph_def path_graph_ABCD_def)

theorem bfs_shortest_path_correct_witness:
  "nx_graph path_graph_ABCD \<and> has_node path_graph_ABCD CHR ''A'' \<and>
   has_node path_graph_ABCD CHR ''D'' \<and> has_node path_graph_ABCD CHR ''E'' \<and>
   bfs_shortest_path path_graph_ABCD CHR ''A'' CHR ''D'' = Inr (Some ''ABCD'') \<and>
   route path_graph_ABCD CHR ''A'' CHR ''D'' ''ABCD'' \<and>
   \<not> (\<exists>q. route path_graph_ABCD CHR ''A'' CHR ''D'' q \<and> length q < 4) \<and>
   bfs_shortest_path path_graph_ABCD CHR ''A'' CHR ''E'' = Inr None \<and>
   \<not> (\<exists>q. route path_graph_ABCD CHR ''A'' CHR ''E'' q)"
proof -
  note g = nx_graph_path_graph_ABCD
  from bfs_shortest_path_correct [OF g has_node_path_graph_ABCD(1) has_node_path_graph_ABCD(2)] bfs_ABCD
  have 1: "route path_graph_ABCD CHR ''A'' CHR ''D'' ''ABCD''"
    and 2: "\<not> (\<exists>q. route path_graph_ABCD CHR ''A'' CHR ''D'' q \<and> length q < 4)"
    by (auto simp: not_less)
  from bfs_shortest_path_correct [OF g has_node_path_graph_ABCD(1) has_node_path_graph_ABCD(3)] bfs_AE
  have 3: "\<not> (\<exists>q. route path_graph_ABCD CHR ''A'' CHR ''E'' q)" by simp
  from g has_node_path_graph_ABCD 1 2 3 bfs_ABCD bfs_AE show ?thesis by blast
qed

text \<open>
  C3: for every graph and every node id \<open>x\<close>, also one that is not a node of the graph,
  \<open>bfs_shortest_path(graph, x, x)\<close> returns the single-element path \<open>[x]\<close>, never "no path"
  and never an error.
\<close>

theorem bfs_start_equals_end: "bfs_shortest_path graph x x = Inr (Some [x])"
  by (simp add: bfs_shortest_path_def)

theorem bfs_start_equals_end_witness:
  "bfs_shortest_path path_graph_ABCD CHR ''Z'' CHR ''Z'' = Inr (Some ''Z'') \<and>
   \<not> has_node path_graph_ABCD CHR ''Z''"
  using bfs_start_equals_end [of path_graph_ABCD "CHR ''Z''"]
  by (simp add: has_node_def path_graph_ABCD_def)

text \<open>
  C2 as stated fails: a missing node and a missing route give the same result. In the
  five-node graph, \<open>A\<close> and \<open>E\<close> are nodes without a connecting route and \<open>Z\<close> is no
  node, and both searches return None.
\<close>

theorem bfs_not_found_same_as_no_path_counterexample:
  "has_node path_graph_ABCD CHR ''A'' \<and> has_node path_graph_ABCD CHR ''E'' \<and>
   \<not> has_node path_graph_ABCD CHR ''Z'' \<and>
   bfs_shortest_path path_graph_ABCD CHR ''A'' CHR ''E'' = Inr None \<and>
   bfs_shortest_path path_graph_ABCD CHR ''A'' CHR ''Z'' = Inr None"
  by (simp add: bfs_AE has_node_path_graph_ABCD)
     (simp add: bfs_shortest_path_def has_node_def path_graph_ABCD_def)

text \<open>
  C2, amended: when the start or the end node id is absent from the graph and the two
  differ, \<open>bfs_shortest_path\<close> returns None, the value it also returns for two nodes
  without a connecting route; it raises no error and signals nothing else.
\<close>

theorem bfs_absent_node_returns_None:
  assumes "start_node \<noteq> end_node"
    and "\<not> has_node graph start_node \<or> \<not> has_node graph end_node"
  shows "bfs_shortest_path graph start_node end_node = Inr None"
  using assms by (simp add: bfs_shortest_path_def)

theorem bfs_absent_node_returns_None_witness:
  "CHR ''A'' \<noteq> CHR ''Z'' \<and> \<not> has_node path_graph_ABCD CHR ''Z'' \<and>
   bfs_shortest_path path_graph_ABCD CHR ''A'' CHR ''Z'' = Inr None \<and>
   bfs_shortest_path path_graph_ABCD CHR ''Z'' CHR ''A'' = Inr None"
proof -
  have z: "\<not> has_node path_graph_ABCD CHR ''Z''"
    by (simp add: has_node_def path_graph_ABCD_def)
  have "bfs_shortest_path path_graph_ABCD CHR ''A'' CHR ''Z'' = Inr None"
    using z by (intro bfs_absent_node_returns_None) simp_all
  moreover have "bfs_shortest_path path_graph_ABCD CHR ''Z'' CHR ''A'' = Inr None"
    using z by (intro bfs_absent_node_returns_None) simp_all
  ultimately show ?thesis using z by simp
qed

section \<open>Strings\<close>

type_synonym float64 = "64 word"
type_synonym point = "float64 \<times> float64"

definition isspace :: "char \<Rightarrow> bool" where
  "isspace c = (of_char c \<in> {9, 10, 11, 12, 13, 28, 29, 30, 31, 32, 133, 160 :: nat})"

definition strip :: "string \<Rightarrow> string" where
  "strip s = rev (dropWhile isspace (rev (dropWhile isspace s)))"

definition lower_char :: "char \<Rightarrow> char" where
  "lower_char c =
     (let n = of_char c :: nat
      in if (65 \<le> n \<and> n \<le> 90) \<or> (192 \<le> n \<and> n \<le> 222 \<and> n \<noteq> 215)
         then char_of (n + 32) else c)"

definition lower :: "string \<Rightarrow> string" where
  "lower s = map lower_char s"

record node_details =
  geometry :: point
  name :: string
  qgis_id :: string

fun find_loop :: "string \<Rightarrow> string \<Rightarrow> (nat \<times> node_details) list \<Rightarrow> nat option" where
  "find_loop stripped_identifier search_by [] = None"
| "find_loop stripped_identifier search_by ((networkx_id, details) # rest) =
     (if search_by = ''id''
      then (if qgis_id details = stripped_identifier then Some networkx_id
            else find_loop stripped_identifier search_by rest)
      else if search_by = ''name''
      then (if lower (name details) = lower stripped_identifier then Some networkx_id
            else find_loop stripped_identifier search_by rest)
      else find_loop stripped_identifier search_by rest)"

definition find_networkx_id :: "string \<Rightarrow> (nat \<times> node_details) list \<Rightarrow> string \<Rightarrow> nat option" where
  "find_networkx_id identifier details_dict search_by =
     find_loop (strip identifier) search_by details_dict"

lemma find_loop_id:
  "find_loop s ''id'' d = map_option fst (find (\<lambda>(i, det). qgis_id det = s) d)"
  by (induction d) auto

lemma find_loop_name:
  "find_loop s ''name'' d = map_option fst (find (\<lambda>(i, det). lower (name det) = lower s) d)"
  by (induction d) auto

definition example_resolver_details :: "(nat \<times> node_details) list" where
  "example_resolver_details =
     [(0, \<lparr>geometry = (0x3FF0000000000000, 0x4000000000000000),
           name = ''main gate'', qgis_id = ''ab1''\<rparr>),
      (1, \<lparr>geometry = (0x400C000000000000, 0x4014000000000000),
           name = ''Library'', qgis_id = ''AB1''\<rparr>)]"

lemma example_lower:
  "lower ''Main Gate'' = ''main gate''" "lower ''main gate'' = ''main gate''"
  "lower ''Library'' = ''library''" "lower ''AB1'' = ''ab1''"
  by code_simp+

lemma example_strips_resolver:
  "strip '' AB1 '' = ''AB1''" "strip ''Main Gate  '' = ''Main Gate''"
  by (simp_all add: strip_def isspace_def)

text \<open>
  C8: in \<open>id\<close> mode the resolver returns the first node, in the order of the details mapping,
  whose stored unique id is equal, character for character, to the input with its
  surrounding whitespace removed; nothing is done to the stored id and no case folding
  happens. In \<open>name\<close> mode it returns the first node whose stored name, lower-cased, equals
  the trimmed input, lower-cased. No match gives None.
\<close>

theorem find_networkx_id_matching:
  "find_networkx_id identifier details_dict ''id'' =
     map_option fst
       (find (\<lambda>(networkx_id, details). qgis_id details = strip identifier) details_dict) \<and>
   find_networkx_id identifier details_dict ''name'' =
     map_option fst
       (find (\<lambda>(networkx_id, details). lower (name details) = lower (strip identifier))
          details_dict)"
  by (simp add: find_networkx_id_def find_loop_id find_loop_name)

theorem find_networkx_id_matching_witness:
  "find_networkx_id '' AB1 '' example_resolver_details ''id'' = Some 1 \<and>
   find_networkx_id '' AB1 '' [hd example_resolver_details] ''id'' = None \<and>
   qgis_id (snd (hd example_resolver_details)) = ''ab1'' \<and>
   find_networkx_id ''Main Gate  '' example_resolver_details ''name'' = Some 0 \<and>
   name (snd (hd example_resolver_details)) = ''main gate''"
proof -
  from find_networkx_id_matching [of "'' AB1 ''" example_resolver_details]
  have 1: "find_networkx_id '' AB1 '' example_resolver_details ''id'' = Some 1"
    by (simp add: example_resolver_details_def example_strips_resolver)
  from find_networkx_id_matching [of "'' AB1 ''" "[hd example_resolver_details]"]
  have 2: "find_networkx_id '' AB1 '' [hd example_resolver_details] ''id'' = None"
    by (simp add: example_resolver_details_def example_strips_resolver)
  from find_networkx_id_matching [of "''Main Gate  ''" example_resolver_details]
  have 3: "find_networkx_id ''Main Gate  '' example_resolver_details ''name'' = Some 0"
    by (simp add: example_resolver_details_def example_strips_resolver example_lower)
  from 1 2 3 show ?thesis by (simp add: example_resolver_details_def)
qed

section \<open>Coordinate Key Encoder\<close>

definition sign_bit :: "float64 \<Rightarrow> bool" where
  "sign_bit w = (2 ^ 63 \<le> unat w)"

definition biased_exponent :: "float64 \<Rightarrow> nat" where
  "biased_exponent w = (unat w div 2 ^ 52) mod 2 ^ 11"

definition fraction :: "float64 \<Rightarrow> nat" where
  "fraction w = unat w mod 2 ^ 52"

definition magnitude :: "float64 \<Rightarrow> nat \<times> nat" where
  "magnitude w =
     (let e = biased_exponent w; f = fraction w
      in if e = 0 then (f, 2 ^ 1074)
         else if 1075 \<le> e then ((2 ^ 52 + f) * 2 ^ (e - 1075), 1)
         else (2 ^ 52 + f, 2 ^ (1075 - e)))"

definition round_half_even :: "nat \<Rightarrow> nat \<Rightarrow> nat" where
  "round_half_even num den =
     (let q = num div den; r = num mod den
      in if 2 * r < den then q
         else if den < 2 * r then q + 1
         else if even q then q else q + 1)"

fun str_nat :: "nat \<Rightarrow> string" where
  "str_nat n = (if n < 10 then [''0123456789'' ! n]
                else str_nat (n div 10) @ [''0123456789'' ! (n mod 10)])"

declare str_nat.simps [simp del]

definition scaled :: "float64 \<Rightarrow> nat \<Rightarrow> nat" where
  "scaled w precision =
     (case magnitude w of (num, den) \<Rightarrow> round_half_even (num * 10 ^ precision) den)"

definition zero_pad :: "nat \<Rightarrow> string \<Rightarrow> string" where
  "zero_pad width digits = replicate (width - length digits) CHR ''0'' @ digits"

definition format_fixed :: "bool \<Rightarrow> nat \<Rightarrow> nat \<Rightarrow> string" where
  "format_fixed negative n precision =
     (if negative then ''-'' else []) @ str_nat (n div 10 ^ precision) @
     (if precision = 0 then [] else ''.'' @ zero_pad precision (str_nat (n mod 10 ^ precision)))"

definition format_f :: "float64 \<Rightarrow> nat \<Rightarrow> string" where
  "format_f w precision =
     (if biased_exponent w = 2047
      then (if fraction w \<noteq> 0 then ''nan'' else if sign_bit w then ''-inf'' else ''inf'')
      else format_fixed (sign_bit w) (scaled w precision) precision)"

definition coordinate_key :: "nat \<Rightarrow> point \<Rightarrow> string" where
  "coordinate_key precision p = format_f (fst p) precision @ '','' @ format_f (snd p) precision"

lemma replicate_numeral: "replicate (numeral k) x = x # replicate (pred_numeral k) x"
  by (simp add: numeral_eq_Suc)

lemmas format_f_eval = format_f_def format_fixed_def zero_pad_def scaled_def magnitude_def
  round_half_even_def sign_bit_def biased_exponent_def fraction_def Let_def str_nat.simps
  replicate_numeral

text \<open>The keys of the points used in the examples: \<open>(1, 2)\<close>, \<open>(3.5, 5)\<close>, \<open>(1.0000001, 2)\<close> and
  \<open>(7.307, 9.4)\<close>.\<close>

lemma example_keys:
  "coordinate_key 6 (0x3FF0000000000000, 0x4000000000000000) = ''1.000000,2.000000''"
  "coordinate_key 6 (0x400C000000000000, 0x4014000000000000) = ''3.500000,5.000000''"
  "coordinate_key 6 (0x3FF000001AD7F29B, 0x4000000000000000) = ''1.000000,2.000000''"
  "coordinate_key 6 (0x401D3A5E353F7CEE, 0x4022CCCCCCCCCCCD) = ''7.307000,9.400000''"
  by (simp_all add: coordinate_key_def format_f_eval)

subsection \<open>Keys of points that round to the same value\<close>

text \<open>
  The spec's \<open>round(x, p)\<close>, as Python's \<open>round\<close> gives it for a double: a finite value rounded
  to \<open>p\<close> decimal digits (written as the integer \<open>round(x, p) * 10 ^ p\<close>, so that \<open>-0.0\<close>
  and \<open>0.0\<close> are the same number), an infinity or not-a-number. The comparison \<open>==\<close> of two
  such results is equality, except that not-a-number equals nothing.
\<close>

datatype rounded = Rounded int | Infinite bool | NotANumber

definition spec_round :: "float64 \<Rightarrow> nat \<Rightarrow> rounded" where
  "spec_round w p =
     (if biased_exponent w = 2047
      then (if fraction w \<noteq> 0 then NotANumber else Infinite (sign_bit w))
      else Rounded (if sign_bit w then - int (scaled w p) else int (scaled w p)))"

definition spec_round_eq :: "rounded \<Rightarrow> rounded \<Rightarrow> bool" where
  "spec_round_eq a b = (a = b \<and> a \<noteq> NotANumber)"

lemma digit_in_digits: "k < 10 \<Longrightarrow> ''0123456789'' ! k \<in> set ''0123456789''"
  by (rule nth_mem) simp

lemma set_str_nat: "set (str_nat n) \<subseteq> set ''0123456789''"
proof (induction n rule: str_nat.induct)
  case (1 n)
  show ?case
  proof (cases "n < 10")
    case True
    then have "str_nat n = [''0123456789'' ! n]" by (simp add: str_nat.simps)
    with digit_in_digits [OF True] show ?thesis by simp
  next
    case False
    then have "str_nat n = str_nat (n div 10) @ [''0123456789'' ! (n mod 10)]"
      by (subst str_nat.simps) simp
    moreover have "''0123456789'' ! (n mod 10) \<in> set ''0123456789''"
      by (rule digit_in_digits) simp
    ultimately show ?thesis using 1 [OF False] by simp
  qed
qed

lemma str_nat_nonempty: "str_nat n \<noteq> []"
  by (subst str_nat.simps) simp

lemma length_str_nat: "n < 10 ^ p \<Longrightarrow> 0 < p \<Longrightarrow> length (str_nat n) \<le> p"
proof (induction n arbitrary: p rule: str_nat.induct)
  case (1 n)
  show ?case
  proof (cases "n < 10")
    case True
    then have "str_nat n = [''0123456789'' ! n]" by (simp add: str_nat.simps)
    with "1.prems" show ?thesis by simp
  next
    case False
    then have s: "str_nat n = str_nat (n div 10) @ [''0123456789'' ! (n mod 10)]"
      by (subst str_nat.simps) simp
    obtain q where q: "p = Suc q" using "1.prems"(2) by (cases p) auto
    have "0 < q"
    proof (rule ccontr)
      assume "\<not> 0 < q"
      with q "1.prems"(1) False show False by simp
    qed
    moreover from "1.prems"(1) q have "n div 10 < 10 ^ q"
      by (simp add: less_mult_imp_div_less mult.commute)
    ultimately have "length (str_nat (n div 10)) \<le> q" using "1.IH" [OF False] by blast
    with s q show ?thesis by simp
  qed
qed

lemma format_fixed_shape:
  "\<exists>ds fs. format_fixed negative n precision =
             (if negative then ''-'' else []) @ ds @
             (if precision = 0 then [] else CHR ''.'' # fs) \<and>
           ds \<noteq> [] \<and> set ds \<subseteq> set ''0123456789'' \<and>
           set fs \<subseteq> set ''0123456789'' \<and> length fs = precision"
proof (cases "precision = 0")
  case True
  have "format_fixed negative n precision =
      (if negative then ''-'' else []) @ str_nat (n div 10 ^ precision) @
      (if precision = 0 then [] else CHR ''.'' # [])"
    using True by (simp add: format_fixed_def)
  with True set_str_nat [of "n div 10 ^ precision"] str_nat_nonempty show ?thesis
    by (intro exI [of _ "str_nat (n div 10 ^ precision)"] exI [of _ "[]"]) simp
next
  case False
  let ?fs = "zero_pad precision (str_nat (n mod 10 ^ precision))"
  have "length (str_nat (n mod 10 ^ precision)) \<le> precision"
    using False by (intro length_str_nat) simp_all
  then have len: "length ?fs = precision" by (simp add: zero_pad_def)
  have "set ?fs \<subseteq> set ''0123456789''"
    using set_str_nat [of "n mod 10 ^ precision"]
    by (auto simp: zero_pad_def)
  moreover have "format_fixed negative n precision =
      (if negative then ''-'' else []) @ str_nat (n div 10 ^ precision) @
      (if precision = 0 then [] else CHR ''.'' # ?fs)"
    using False by (simp add: format_fixed_def)
  ultimately show ?thesis using len set_str_nat [of "n div 10 ^ precision"] str_nat_nonempty
    by (intro exI [of _ "str_nat (n div 10 ^ precision)"] exI [of _ ?fs]) simp
qed

lemma format_f_chars: "set (format_f w precision) \<subseteq> set ''0123456789.-infa''"
proof -
  define A where "A = set ''0123456789.-infa''"
  have D: "set ''0123456789'' \<subseteq> A" and m: "CHR ''-'' \<in> A" and d: "CHR ''.'' \<in> A"
    and w: "set ''nan'' \<subseteq> A" "set ''inf'' \<subseteq> A" "set ''-inf'' \<subseteq> A"
    unfolding A_def by simp_all
  have "set (format_f w precision) \<subseteq> A"
  proof (cases "biased_exponent w = 2047")
    case True
    with w show ?thesis by (simp only: format_f_def if_True split: if_splits) presburger
  next
    case False
    obtain ds fs where f:
      "format_fixed (sign_bit w) (scaled w precision) precision =
         (if sign_bit w then ''-'' else []) @ ds @ (if precision = 0 then [] else CHR ''.'' # fs)"
      and "set ds \<subseteq> set ''0123456789''" "set fs \<subseteq> set ''0123456789''"
      using format_fixed_shape [of "sign_bit w" "scaled w precision" precision] by blast
    with D have ds: "set ds \<subseteq> A" and fs: "set fs \<subseteq> A" by blast+
    have 1: "set (if sign_bit w then ''-'' else []) \<subseteq> A"
      using m by (cases "sign_bit w") simp_all
    have 2: "set (if precision = 0 then [] else CHR ''.'' # fs) \<subseteq> A"
      using d fs by (cases "precision = 0") simp_all
    have "format_f w precision = format_fixed (sign_bit w) (scaled w precision) precision"
      using False by (simp add: format_f_def)
    with f 1 2 ds show ?thesis by (simp only: set_append Un_subset_iff) 
  qed
  then show ?thesis unfolding A_def .
qed

lemma format_f_same:
  assumes "spec_round_eq (spec_round a p) (spec_round b p)" "sign_bit a = sign_bit b"
  shows "format_f a p = format_f b p"
proof (cases "biased_exponent a = 2047")
  case True
  with assms show ?thesis
    by (auto simp: spec_round_eq_def spec_round_def format_f_def split: if_splits)
next
  case False
  with assms(1) have fb: "biased_exponent b \<noteq> 2047"
    by (auto simp: spec_round_eq_def spec_round_def split: if_splits)
  with False assms have "scaled a p = scaled b p"
    by (auto simp: spec_round_eq_def spec_round_def split: if_splits)
  with False fb assms(2) show ?thesis by (simp add: format_f_def)
qed

lemma coordinate_key_chars: "set (coordinate_key precision p) \<subseteq> set ''0123456789.-infa,''"
proof -
  have "set ''0123456789.-infa'' \<subseteq> set ''0123456789.-infa,''" by auto
  with format_f_chars [of "fst p" precision] format_f_chars [of "snd p" precision]
  have "set (format_f (fst p) precision) \<subseteq> set ''0123456789.-infa,''"
    "set (format_f (snd p) precision) \<subseteq> set ''0123456789.-infa,''" by blast+
  moreover have "CHR '','' \<in> set ''0123456789.-infa,''" by simp
  ultimately show ?thesis by (simp only: coordinate_key_def set_append set_simps Un_subset_iff
        insert_subset empty_subsetI simp_thms)
qed

lemma example_spec_round:
  "spec_round 0xBE7AD7F29ABCAF48 6 = Rounded 0" "spec_round 0x3E7AD7F29ABCAF48 6 = Rounded 0"
  "spec_round 0x3FF0000000000000 6 = Rounded 1000000"
  "spec_round 0x3FF000001AD7F29B 6 = Rounded 1000000"
  "spec_round 0x4000000000000000 6 = Rounded 2000000"
  by (simp_all add: spec_round_def format_f_eval)

lemma example_sign_bits:
  "sign_bit 0xBE7AD7F29ABCAF48" "\<not> sign_bit 0x3E7AD7F29ABCAF48"
  "\<not> sign_bit 0x3FF0000000000000" "\<not> sign_bit 0x3FF000001AD7F29B"
  "\<not> sign_bit 0x4000000000000000"
  by (simp_all add: sign_bit_def)

lemma example_keys_near_zero:
  "coordinate_key 6 (0xBE7AD7F29ABCAF48, 0x4000000000000000) = ''-0.000000,2.000000''"
  "coordinate_key 6 (0x3E7AD7F29ABCAF48, 0x4000000000000000) = ''0.000000,2.000000''"
  by (simp_all add: coordinate_key_def format_f_eval)

text \<open>
  C9 as stated fails. The doubles \<open>-1e-7\<close> and \<open>1e-7\<close> both round to zero at precision 6
  (\<open>round(-1e-7, 6) == round(1e-7, 6)\<close>), and the second coordinates are both \<open>2.0\<close>, but
  the keys are \<open>"-0.000000,2.000000"\<close> and \<open>"0.000000,2.000000"\<close>: the formatter keeps the
  sign of a negative value that rounds to zero.
\<close>

theorem equal_rounding_different_keys_counterexample:
  "spec_round_eq (spec_round 0xBE7AD7F29ABCAF48 6) (spec_round 0x3E7AD7F29ABCAF48 6) \<and>
   spec_round_eq (spec_round 0x4000000000000000 6) (spec_round 0x4000000000000000 6) \<and>
   coordinate_key 6 (0xBE7AD7F29ABCAF48, 0x4000000000000000) \<noteq>
     coordinate_key 6 (0x3E7AD7F29ABCAF48, 0x4000000000000000)"
  by (simp add: example_spec_round example_keys_near_zero spec_round_eq_def)

text \<open>
  C9, amended: if the two points round to equal values in both coordinates at precision
  \<open>p\<close>, and the corresponding coordinates have the same sign bit, then the keys are the
  same string. Every key is made of decimal digits, the sign, the decimal point, the comma
  between the coordinates and the letters of \<open>inf\<close> and \<open>nan\<close>: there is never an exponent.
\<close>

theorem coordinate_key_rounding:
  assumes "spec_round_eq (spec_round (fst a) p) (spec_round (fst b) p)"
    and "spec_round_eq (spec_round (snd a) p) (spec_round (snd b) p)"
    and "sign_bit (fst a) = sign_bit (fst b)" and "sign_bit (snd a) = sign_bit (snd b)"
  shows "coordinate_key p a = coordinate_key p b \<and>
         set (coordinate_key p a) \<subseteq> set ''0123456789.-infa,''"
proof
  from assms show "coordinate_key p a = coordinate_key p b"
    by (simp only: coordinate_key_def format_f_same [of "fst a" p "fst b"]
        format_f_same [of "snd a" p "snd b"])
  show "set (coordinate_key p a) \<subseteq> set ''0123456789.-infa,''"
    by (rule coordinate_key_chars)
qed

theorem coordinate_key_rounding_witness:
  "spec_round_eq (spec_round 0x3FF0000000000000 6) (spec_round 0x3FF000001AD7F29B 6) \<and>
   spec_round_eq (spec_round 0x4000000000000000 6) (spec_round 0x4000000000000000 6) \<and>
   sign_bit 0x3FF0000000000000 = sign_bit 0x3FF000001AD7F29B \<and>
   (0x3FF0000000000000 :: float64) \<noteq> 0x3FF000001AD7F29B \<and>
   coordinate_key 6 (0x3FF0000000000000, 0x4000000000000000) =
     coordinate_key 6 (0x3FF000001AD7F29B, 0x4000000000000000) \<and>
   coordinate_key 6 (0x3FF0000000000000, 0x4000000000000000) = ''1.000000,2.000000''"
  using coordinate_key_rounding
    [of "(0x3FF0000000000000, 0x4000000000000000)" 6 "(0x3FF000001AD7F29B, 0x4000000000000000)"]
  by (simp add: example_spec_round example_sign_bits spec_round_eq_def example_keys)

section \<open>Node Index Builder: \<open>prepare_graph_nodes\<close>\<close>

record point_row =
  row_geometry :: point
  row_attrs :: "string \<Rightarrow> string option"

text \<open>
  A GeoDataFrame of points: its coordinate reference system and its records in order. The
  reprojection \<open>to_crs\<close> is the library's; the builder takes it as a parameter. It gives a
  new frame or raises.
\<close>

record 'c geo_frame =
  crs :: 'c
  frame_rows :: "point_row list"

type_synonym ('c, 'e) reprojection = "'c geo_frame \<Rightarrow> 'c \<Rightarrow> 'e + 'c geo_frame"

fun drop_duplicates :: "point list \<Rightarrow> point_row list \<Rightarrow> point_row list" where
  "drop_duplicates seen [] = []"
| "drop_duplicates seen (row # rows) =
     (if row_geometry row \<in> set seen then drop_duplicates seen rows
      else row # drop_duplicates (row_geometry row # seen) rows)"

type_synonym node_index = "(string \<times> nat) list \<times> (nat \<times> node_details) list"

fun prepare_loop ::
  "string \<Rightarrow> string \<Rightarrow> nat \<Rightarrow> point_row list \<Rightarrow> node_index \<times> nat \<Rightarrow> node_index \<times> nat" where
  "prepare_loop name_col id_col precision [] state = state"
| "prepare_loop name_col id_col precision (row # rows)
     ((node_coords_to_networkx_id, networkx_id_to_details), current_networkx_id) =
     (let point_geom = row_geometry row;
          coords_key = coordinate_key precision point_geom;
          qgis_name = (case row_attrs row name_col of
                         Some v \<Rightarrow> strip v
                       | None \<Rightarrow> ''Unnamed_Node_NX_'' @ str_nat current_networkx_id);
          qgis_unique_id = (case row_attrs row id_col of
                              Some v \<Rightarrow> strip v
                            | None \<Rightarrow> ''QGIS_ID_NX_'' @ str_nat current_networkx_id)
      in if map_of node_coords_to_networkx_id coords_key = None
         then let networkx_id = current_networkx_id
              in prepare_loop name_col id_col precision rows
                   ((AList.update coords_key networkx_id node_coords_to_networkx_id,
                     AList.update networkx_id
                       \<lparr>geometry = point_geom, name = qgis_name, qgis_id = qgis_unique_id\<rparr>
                       networkx_id_to_details),
                    current_networkx_id + 1)
         else prepare_loop name_col id_col precision rows
                ((node_coords_to_networkx_id, networkx_id_to_details), current_networkx_id))"

definition prepare_graph_nodes ::
  "('c, 'e) reprojection \<Rightarrow> 'c geo_frame \<Rightarrow> 'c geo_frame \<Rightarrow> string \<Rightarrow> string \<Rightarrow> nat \<Rightarrow>
     node_index" where
  "prepare_graph_nodes to_crs intersections_gdf buildings_gdf name_col id_col precision =
     (let buildings_gdf =
            (if crs intersections_gdf \<noteq> crs buildings_gdf
             then (case to_crs buildings_gdf (crs intersections_gdf) of
                     Inr reprojected \<Rightarrow> reprojected
                   | Inl e \<Rightarrow> buildings_gdf)
             else buildings_gdf);
          all_graph_nodes_gdf =
            drop_duplicates [] (frame_rows intersections_gdf @ frame_rows buildings_gdf)
      in if length all_graph_nodes_gdf = 0 then ([], [])
         else fst (prepare_loop name_col id_col precision all_graph_nodes_gdf (([], []), 0)))"

text \<open>
  The records the loop runs over, before the exact duplicates are dropped: the intersections,
  then the buildings, reprojected when the two reference systems differ and the reprojection
  succeeds, as they are otherwise.
\<close>

definition reconciled_buildings ::
  "('c, 'e) reprojection \<Rightarrow> 'c geo_frame \<Rightarrow> 'c geo_frame \<Rightarrow> 'c geo_frame" where
  "reconciled_buildings to_crs intersections_gdf buildings_gdf =
     (if crs intersections_gdf \<noteq> crs buildings_gdf
      then (case to_crs buildings_gdf (crs intersections_gdf) of
              Inr reprojected \<Rightarrow> reprojected
            | Inl e \<Rightarrow> buildings_gdf)
      else buildings_gdf)"

definition all_point_rows ::
  "('c, 'e) reprojection \<Rightarrow> 'c geo_frame \<Rightarrow> 'c geo_frame \<Rightarrow> point_row list" where
  "all_point_rows to_crs intersections_gdf buildings_gdf =
     frame_rows intersections_gdf @
     frame_rows (reconciled_buildings to_crs intersections_gdf buildings_gdf)"

text \<open>What the loop stores for a row that becomes node \<open>nid\<close>.\<close>

definition stored_details :: "string \<Rightarrow> string \<Rightarrow> point_row \<Rightarrow> nat \<Rightarrow> node_details" where
  "stored_details name_col id_col row nid =
     \<lparr>geometry = row_geometry row,
      name = (case row_attrs row name_col of
                Some v \<Rightarrow> strip v | None \<Rightarrow> ''Unnamed_Node_NX_'' @ str_nat nid),
      qgis_id = (case row_attrs row id_col of
                   Some v \<Rightarrow> strip v | None \<Rightarrow> ''QGIS_ID_NX_'' @ str_nat nid)\<rparr>"

lemma update_new_key: "map_of al k = None \<Longrightarrow> AList.update k v al = al @ [(k, v)]"
  by (induction al) auto

lemma prepare_loop_Cons [simp]:
  "prepare_loop name_col id_col precision (row # rows) ((m, d), cur) =
     (if map_of m (coordinate_key precision (row_geometry row)) = None
      then prepare_loop name_col id_col precision rows
             ((AList.update (coordinate_key precision (row_geometry row)) cur m,
               AList.update cur (stored_details name_col id_col row cur) d), Suc cur)
      else prepare_loop name_col id_col precision rows ((m, d), cur))"
  by (simp add: stored_details_def Let_def)

declare prepare_loop.simps(2) [simp del]

definition index_inv :: "node_index \<times> nat \<Rightarrow> bool" where
  "index_inv st = (case st of ((m, d), cur) \<Rightarrow>
     map snd m = [0..<cur] \<and> map fst d = [0..<cur] \<and> distinct (map fst m))"

lemma index_inv_step:
  assumes "index_inv ((m, d), cur)" "map_of m k = None"
  shows "index_inv ((AList.update k cur m, AList.update cur e d), Suc cur)"
proof -
  from assms(1) have "set (map fst d) = set [0..<cur]"
    by (simp only: index_inv_def prod.case)
  then have "map_of d cur = None"
    by (simp add: map_of_eq_None_iff)
  moreover from assms(2) have "k \<notin> set (map fst m)"
    by (simp add: map_of_eq_None_iff)
  ultimately show ?thesis using assms
    by (simp add: index_inv_def update_new_key)
qed

lemma prepare_loop_props:
  "index_inv ((m, d), cur) \<Longrightarrow>
   prepare_loop name_col id_col precision rows ((m, d), cur) = ((m', d'), cur') \<Longrightarrow>
   index_inv ((m', d'), cur') \<and>
   fst ` set m' = fst ` set m \<union> (\<lambda>r. coordinate_key precision (row_geometry r)) ` set rows \<and>
   (\<forall>k nid. map_of m k = Some nid \<longrightarrow> map_of m' k = Some nid) \<and>
   (\<forall>nid e. map_of d nid = Some e \<longrightarrow> map_of d' nid = Some e) \<and>
   (\<forall>k r0. map_of m k = None \<longrightarrow>
       find (\<lambda>r. coordinate_key precision (row_geometry r) = k) rows = Some r0 \<longrightarrow>
       (\<exists>nid. map_of m' k = Some nid \<and>
              map_of d' nid = Some (stored_details name_col id_col r0 nid)))"
proof (induction rows arbitrary: m d cur)
  case Nil
  then show ?case by simp
next
  case (Cons row rows)
  let ?k = "coordinate_key precision (row_geometry row)"
  show ?case
  proof (cases "map_of m ?k = None")
    case False
    with Cons.prems(2) have run:
      "prepare_loop name_col id_col precision rows ((m, d), cur) = ((m', d'), cur')"
      by simp
    note IH = Cons.IH [OF Cons.prems(1) run]
    from False have k: "?k \<in> fst ` set m" by (simp add: map_of_eq_None_iff)
    have A: "index_inv ((m', d'), cur')" using IH by blast
    have "fst ` set m' = fst ` set m \<union> (\<lambda>r. coordinate_key precision (row_geometry r)) ` set rows"
      using IH by blast
    with k have B: "fst ` set m' = fst ` set m \<union> (\<lambda>r. coordinate_key precision (row_geometry r)) ` set (row # rows)"
      by auto
    have C: "\<forall>k nid. map_of m k = Some nid \<longrightarrow> map_of m' k = Some nid" using IH by blast
    have D: "\<forall>nid e. map_of d nid = Some e \<longrightarrow> map_of d' nid = Some e" using IH by blast
    have E: "\<exists>nid. map_of m' k = Some nid \<and>
              map_of d' nid = Some (stored_details name_col id_col r0 nid)"
      if "map_of m k = None"
        and "find (\<lambda>r. coordinate_key precision (row_geometry r) = k) (row # rows) = Some r0"
      for k r0
    proof -
      from that(1) False have "k \<noteq> ?k" by auto
      with that(2) have "find (\<lambda>r. coordinate_key precision (row_geometry r) = k) rows = Some r0"
        by auto
      with that(1) IH show ?thesis by blast
    qed
    from A B C D E show ?thesis by blast
  next
    case True
    let ?m1 = "AList.update ?k cur m"
    let ?d1 = "AList.update cur (stored_details name_col id_col row cur) d"
    from True Cons.prems(2) have run:
      "prepare_loop name_col id_col precision rows ((?m1, ?d1), Suc cur) = ((m', d'), cur')"
      by simp
    have inv1: "index_inv ((?m1, ?d1), Suc cur)"
      using Cons.prems(1) True by (rule index_inv_step)
    note IH = Cons.IH [OF inv1 run]
    from Cons.prems(1) have "set (map fst d) = set [0..<cur]"
      by (simp only: index_inv_def prod.case)
    then have dcur: "map_of d cur = None"
      by (simp add: map_of_eq_None_iff)
    have m1: "map_of ?m1 = (map_of m)(?k \<mapsto> cur)" by (simp add: update_conv')
    have d1: "map_of ?d1 = (map_of d)(cur \<mapsto> stored_details name_col id_col row cur)"
      by (simp add: update_conv')
    have A: "index_inv ((m', d'), cur')" using IH by blast
    have B: "fst ` set m' = fst ` set m \<union> (\<lambda>r. coordinate_key precision (row_geometry r)) ` set (row # rows)"
    proof -
      have "fst ` set m' = fst ` set ?m1 \<union> (\<lambda>r. coordinate_key precision (row_geometry r)) ` set rows"
        using IH by blast
      then show ?thesis by (simp add: dom_update)
    qed
    have C: "map_of m' k = Some nid" if "map_of m k = Some nid" for k nid
    proof -
      from that True have "k \<noteq> ?k" by auto
      with that have "map_of ?m1 k = Some nid" by (simp add: m1)
      with IH show ?thesis by blast
    qed
    have D: "map_of d' nid = Some e" if "map_of d nid = Some e" for nid e
    proof -
      from that dcur have "nid \<noteq> cur" by auto
      with that have "map_of ?d1 nid = Some e" by (simp add: d1)
      with IH show ?thesis by blast
    qed
    have E: "\<exists>nid. map_of m' k = Some nid \<and>
              map_of d' nid = Some (stored_details name_col id_col r0 nid)"
      if "map_of m k = None"
        and "find (\<lambda>r. coordinate_key precision (row_geometry r) = k) (row # rows) = Some r0"
      for k r0
    proof (cases "k = ?k")
      case True
      with that have "r0 = row" by simp
      have "map_of ?m1 k = Some cur" using True by (simp add: m1)
      with IH have "map_of m' k = Some cur" by blast
      moreover have "map_of ?d1 cur = Some (stored_details name_col id_col row cur)"
        by (simp add: d1)
      with IH have "map_of d' cur = Some (stored_details name_col id_col row cur)" by blast
      ultimately show ?thesis using \<open>r0 = row\<close> by blast
    next
      case False
      with that have "map_of ?m1 k = None"
        and "find (\<lambda>r. coordinate_key precision (row_geometry r) = k) rows = Some r0"
        by (auto simp: m1)
      with IH show ?thesis by blast
    qed
    from A B C D E show ?thesis by blast
  qed
qed

lemma prepare_loop_drop_duplicates:
  "(\<forall>g \<in> set seen. map_of m (coordinate_key precision g) \<noteq> None) \<Longrightarrow>
   prepare_loop name_col id_col precision (drop_duplicates seen rows) ((m, d), cur) =
   prepare_loop name_col id_col precision rows ((m, d), cur)"
proof (induction rows arbitrary: seen m d cur)
  case Nil
  then show ?case by simp
next
  case (Cons row rows)
  let ?k = "coordinate_key precision (row_geometry row)"
  show ?case
  proof (cases "row_geometry row \<in> set seen")
    case True
    with Cons.prems have "map_of m ?k \<noteq> None" by blast
    then have "prepare_loop name_col id_col precision (row # rows) ((m, d), cur) =
               prepare_loop name_col id_col precision rows ((m, d), cur)"
      by auto
    with True Cons.IH [OF Cons.prems] show ?thesis by (simp del: prepare_loop_Cons)
  next
    case False
    show ?thesis
    proof (cases "map_of m ?k = None")
      case k: False
      have "\<forall>g \<in> set (row_geometry row # seen). map_of m (coordinate_key precision g) \<noteq> None"
        using Cons.prems k by simp
      from Cons.IH [OF this] False k show ?thesis by auto
    next
      case k: True
      let ?m1 = "AList.update ?k cur m"
      have "\<forall>g \<in> set (row_geometry row # seen). map_of ?m1 (coordinate_key precision g) \<noteq> None"
        using Cons.prems by (simp add: update_conv')
      from Cons.IH [OF this] False k show ?thesis by auto
    qed
  qed
qed

lemma prepare_graph_nodes_rows:
  "prepare_graph_nodes to_crs intersections_gdf buildings_gdf name_col id_col precision =
     (let all_graph_nodes_gdf =
            drop_duplicates [] (all_point_rows to_crs intersections_gdf buildings_gdf)
      in if length all_graph_nodes_gdf = 0 then ([], [])
         else fst (prepare_loop name_col id_col precision all_graph_nodes_gdf (([], []), 0)))"
  by (simp add: prepare_graph_nodes_def all_point_rows_def reconciled_buildings_def Let_def)

lemma prepare_graph_nodes_eq:
  "prepare_graph_nodes to_crs intersections_gdf buildings_gdf name_col id_col precision =
   fst (prepare_loop name_col id_col precision
          (all_point_rows to_crs intersections_gdf buildings_gdf) (([], []), 0))"
proof -
  let ?rows = "all_point_rows to_crs intersections_gdf buildings_gdf"
  have same: "prepare_loop name_col id_col precision (drop_duplicates [] ?rows) (([], []), 0)
        = prepare_loop name_col id_col precision ?rows (([], []), 0)"
    by (rule prepare_loop_drop_duplicates) simp
  show ?thesis
  proof (cases "drop_duplicates [] ?rows")
    case Nil
    with same show ?thesis by (simp add: prepare_graph_nodes_rows)
  next
    case (Cons a list)
    with same show ?thesis by (simp add: prepare_graph_nodes_rows)
  qed
qed

lemma all_point_rows_cases:
  "crs intersections_gdf = crs buildings_gdf \<Longrightarrow>
     all_point_rows to_crs intersections_gdf buildings_gdf =
       frame_rows intersections_gdf @ frame_rows buildings_gdf"
  "crs intersections_gdf \<noteq> crs buildings_gdf \<Longrightarrow>
     to_crs buildings_gdf (crs intersections_gdf) = Inr reprojected \<Longrightarrow>
     all_point_rows to_crs intersections_gdf buildings_gdf =
       frame_rows intersections_gdf @ frame_rows reprojected"
  "crs intersections_gdf \<noteq> crs buildings_gdf \<Longrightarrow>
     to_crs buildings_gdf (crs intersections_gdf) = Inl e \<Longrightarrow>
     all_point_rows to_crs intersections_gdf buildings_gdf =
       frame_rows intersections_gdf @ frame_rows buildings_gdf"
  by (simp_all add: all_point_rows_def reconciled_buildings_def)

definition example_intersections :: "point_row list" where
  "example_intersections =
     [\<lparr>row_geometry = (0x3FF0000000000000, 0x4000000000000000),
       row_attrs = [''Name'' \<mapsto> '' Main Gate '', ''id'' \<mapsto> ''AB1'']\<rparr>,
      \<lparr>row_geometry = (0x400C000000000000, 0x4014000000000000),
       row_attrs = Map.empty\<rparr>]"

definition example_buildings :: "point_row list" where
  "example_buildings =
     [\<lparr>row_geometry = (0x3FF000001AD7F29B, 0x4000000000000000),
       row_attrs = [''Name'' \<mapsto> ''Library'', ''id'' \<mapsto> ''ab1'']\<rparr>,
      \<lparr>row_geometry = (0x401D3A5E353F7CEE, 0x4022CCCCCCCCCCCD),
       row_attrs = [''Name'' \<mapsto> ''  '', ''id'' \<mapsto> []]\<rparr>,
      \<lparr>row_geometry = (0x3FF0000000000000, 0x4000000000000000),
       row_attrs = [''Name'' \<mapsto> ''Annex'', ''id'' \<mapsto> ''C3'']\<rparr>]"

text \<open>
  Two reference systems for the examples, one with the axes of the other exchanged, and the
  reprojection between them. The intersections are in \<open>local:xy\<close>; the buildings come once in
  the same system and once in \<open>local:yx\<close>.
\<close>

definition swap_axes :: "point_row \<Rightarrow> point_row" where
  "swap_axes row = row\<lparr>row_geometry := (snd (row_geometry row), fst (row_geometry row))\<rparr>"

definition example_to_crs :: "(string, string) reprojection" where
  "example_to_crs frame target =
     (if (crs frame = ''local:yx'' \<and> target = ''local:xy'') \<or>
         (crs frame = ''local:xy'' \<and> target = ''local:yx'')
      then Inr \<lparr>crs = target, frame_rows = map swap_axes (frame_rows frame)\<rparr>
      else Inl ''no transformation'')"

definition example_intersections_gdf :: "string geo_frame" where
  "example_intersections_gdf = \<lparr>crs = ''local:xy'', frame_rows = example_intersections\<rparr>"

definition example_buildings_gdf :: "string geo_frame" where
  "example_buildings_gdf = \<lparr>crs = ''local:xy'', frame_rows = example_buildings\<rparr>"

definition example_buildings_yx_gdf :: "string geo_frame" where
  "example_buildings_yx_gdf = \<lparr>crs = ''local:yx'', frame_rows = map swap_axes example_buildings\<rparr>"

definition example_node_coords_to_networkx_id :: "(string \<times> nat) list" where
  "example_node_coords_to_networkx_id =
     [(''1.000000,2.000000'', 0), (''3.500000,5.000000'', 1), (''7.307000,9.400000'', 2)]"

definition example_networkx_id_to_details :: "(nat \<times> node_details) list" where
  "example_networkx_id_to_details =
     [(0, \<lparr>geometry = (0x3FF0000000000000, 0x4000000000000000),
           name = ''Main Gate'', qgis_id = ''AB1''\<rparr>),
      (1, \<lparr>geometry = (0x400C000000000000, 0x4014000000000000),
           name = ''Unnamed_Node_NX_1'', qgis_id = ''QGIS_ID_NX_1''\<rparr>),
      (2, \<lparr>geometry = (0x401D3A5E353F7CEE, 0x4022CCCCCCCCCCCD),
           name = [], qgis_id = []\<rparr>)]"

lemma example_strips:
  "strip '' Main Gate '' = ''Main Gate''" "strip ''AB1'' = ''AB1''"
  "strip ''  '' = []" "strip [] = []"
  by (simp_all add: strip_def isspace_def)

lemma example_str_nat: "str_nat (Suc 0) = ''1''"
  by (simp add: str_nat.simps)

lemma example_all_point_rows:
  "all_point_rows example_to_crs example_intersections_gdf example_buildings_gdf =
     example_intersections @ example_buildings"
  "all_point_rows example_to_crs example_intersections_gdf example_buildings_yx_gdf =
     example_intersections @ example_buildings"
  by (simp_all add: all_point_rows_def reconciled_buildings_def example_to_crs_def
      example_intersections_gdf_def example_buildings_gdf_def example_buildings_yx_gdf_def
      example_buildings_def swap_axes_def)

lemma example_prepare_loop:
  "prepare_loop ''Name'' ''id'' 6 (example_intersections @ example_buildings) (([], []), 0) =
     ((example_node_coords_to_networkx_id, example_networkx_id_to_details), 3)"
  by (simp add: example_intersections_def example_buildings_def
      example_node_coords_to_networkx_id_def example_networkx_id_to_details_def
      example_keys example_strips example_str_nat stored_details_def)

lemma example_prepare_graph_nodes:
  "prepare_graph_nodes example_to_crs example_intersections_gdf example_buildings_gdf
     ''Name'' ''id'' 6 =
     (example_node_coords_to_networkx_id, example_networkx_id_to_details)"
  "prepare_graph_nodes example_to_crs example_intersections_gdf example_buildings_yx_gdf
     ''Name'' ''id'' 6 =
     (example_node_coords_to_networkx_id, example_networkx_id_to_details)"
  by (simp_all add: prepare_graph_nodes_eq example_all_point_rows example_prepare_loop)

lemma example_keys_yx:
  "coordinate_key 6 (0x4000000000000000, 0x3FF000001AD7F29B) = ''2.000000,1.000000''"
  "coordinate_key 6 (0x4022CCCCCCCCCCCD, 0x401D3A5E353F7CEE) = ''9.400000,7.307000''"
  by (simp_all add: coordinate_key_def format_f_eval)

lemma single_entry:
  "distinct (map fst al) \<Longrightarrow> map_of al k = Some v \<Longrightarrow> length (filter (\<lambda>e. fst e = k) al) = 1"
proof (induction al)
  case Nil
  then show ?case by simp
next
  case (Cons a al)
  show ?case
  proof (cases "fst a = k")
    case True
    from Cons.prems(1) have "fst a \<notin> fst ` set al" by simp
    with True have "\<forall>x \<in> set al. fst x \<noteq> k" by blast
    then have "filter (\<lambda>e. fst e = k) al = []" by (simp add: filter_empty_conv)
    with True show ?thesis by simp
  next
    case False
    with Cons show ?thesis by (cases a) auto
  qed
qed

lemma prepare_graph_nodes_props:
  assumes "prepare_graph_nodes to_crs intersections_gdf buildings_gdf name_col id_col precision =
             (m, d)"
  shows "index_inv ((m, d), length m)"
    and "fst ` set m =
           (\<lambda>r. coordinate_key precision (row_geometry r)) `
             set (all_point_rows to_crs intersections_gdf buildings_gdf)"
    and "find (\<lambda>r. coordinate_key precision (row_geometry r) = k)
           (all_point_rows to_crs intersections_gdf buildings_gdf) = Some r0 \<Longrightarrow>
         \<exists>nid. map_of m k = Some nid \<and> map_of d nid = Some (stored_details name_col id_col r0 nid)"
proof -
  let ?rows = "all_point_rows to_crs intersections_gdf buildings_gdf"
  obtain cur where run: "prepare_loop name_col id_col precision ?rows (([], []), 0) = ((m, d), cur)"
    using assms unfolding prepare_graph_nodes_eq
    by (cases "prepare_loop name_col id_col precision ?rows (([], []), 0)") auto
  have init: "index_inv (([], []), 0)" by (simp add: index_inv_def)
  note P = prepare_loop_props [OF init run]
  from P have inv: "index_inv ((m, d), cur)" by blast
  then have "length (map snd m) = length [0..<cur]" by (simp only: index_inv_def prod.case)
  then have "cur = length m" by simp
  with inv show "index_inv ((m, d), length m)" by simp
  from P show "fst ` set m = (\<lambda>r. coordinate_key precision (row_geometry r)) ` set ?rows"
    by simp
  assume "find (\<lambda>r. coordinate_key precision (row_geometry r) = k) ?rows = Some r0"
  moreover have "map_of [] k = None" by simp
  ultimately show "\<exists>nid. map_of m k = Some nid \<and>
      map_of d nid = Some (stored_details name_col id_col r0 nid)"
    using P by blast
qed

text \<open>
  C10: the two mappings returned by the Node Index Builder are consistent. The input record
  sequence is the intersections followed by the buildings, the buildings being reprojected
  to the reference system of the intersections when the two differ and the reprojection
  succeeds. With \<open>n\<close> the number of distinct coordinate keys of that sequence, the ids
  stored in the key-to-id mapping are \<open>0, 1, ..., n - 1\<close> in insertion order, the keys of the
  id-to-details mapping are the same ids in the same order, every coordinate key of the
  sequence has exactly one entry, and no id is assigned to two keys.
\<close>

theorem node_index_consistent:
  assumes "prepare_graph_nodes to_crs intersections_gdf buildings_gdf name_col id_col precision =
             (m, d)"
  shows "map snd m = [0..<length m] \<and> map fst d = [0..<length m] \<and>
         length m = card ((\<lambda>r. coordinate_key precision (row_geometry r)) `
                            set (all_point_rows to_crs intersections_gdf buildings_gdf)) \<and>
         fst ` set m = (\<lambda>r. coordinate_key precision (row_geometry r)) `
                            set (all_point_rows to_crs intersections_gdf buildings_gdf) \<and>
         distinct (map fst m) \<and>
         (\<forall>k1 k2 i. map_of m k1 = Some i \<and> map_of m k2 = Some i \<longrightarrow> k1 = k2) \<and>
         snd ` set m = fst ` set d"
proof -
  from prepare_graph_nodes_props(1) [OF assms]
  have s: "map snd m = [0..<length m]" and f: "map fst d = [0..<length m]"
    and dist: "distinct (map fst m)"
    by (simp_all add: index_inv_def)
  note keys = prepare_graph_nodes_props(2) [OF assms]
  have "card (fst ` set m) = length m"
    using dist by (metis distinct_card length_map set_map)
  with keys have n: "length m = card ((\<lambda>r. coordinate_key precision (row_geometry r)) `
                            set (all_point_rows to_crs intersections_gdf buildings_gdf))" by simp
  have "distinct (map snd m)" using s by (metis distinct_upt)
  then have inj: "inj_on snd (set m)" by (simp add: distinct_map)
  have one: "k1 = k2" if "map_of m k1 = Some i \<and> map_of m k2 = Some i" for k1 k2 i
  proof -
    from that have "(k1, i) \<in> set m" "(k2, i) \<in> set m" by (auto dest: map_of_SomeD)
    with inj_onD [OF inj, of "(k1, i)" "(k2, i)"] show ?thesis by simp
  qed
  have "set (map snd m) = set (map fst d)" using s f by simp
  then have "snd ` set m = fst ` set d" by simp
  with s f n keys dist one show ?thesis by blast
qed

theorem node_index_consistent_witness:
  "crs example_intersections_gdf \<noteq> crs example_buildings_yx_gdf \<and>
   prepare_graph_nodes example_to_crs example_intersections_gdf example_buildings_yx_gdf
     ''Name'' ''id'' 6 =
     (example_node_coords_to_networkx_id, example_networkx_id_to_details) \<and>
   map snd example_node_coords_to_networkx_id = [0, 1, 2] \<and>
   map fst example_networkx_id_to_details = [0, 1, 2] \<and>
   card ((\<lambda>r. coordinate_key 6 (row_geometry r)) `
            set (all_point_rows example_to_crs example_intersections_gdf
                   example_buildings_yx_gdf)) = 3 \<and>
   map fst example_node_coords_to_networkx_id =
     [''1.000000,2.000000'', ''3.500000,5.000000'', ''7.307000,9.400000''] \<and>
   coordinate_key 6 (row_geometry (frame_rows example_buildings_yx_gdf ! 1)) =
     ''9.400000,7.307000''"
proof -
  note ex = example_prepare_graph_nodes(2)
  have len: "length example_node_coords_to_networkx_id = 3"
    by (simp add: example_node_coords_to_networkx_id_def)
  have upt: "[0..<3] = [0, 1, 2::nat]" by (simp add: upt_rec)
  have c: "crs example_intersections_gdf \<noteq> crs example_buildings_yx_gdf"
    by (simp add: example_intersections_gdf_def example_buildings_yx_gdf_def)
  have k: "map fst example_node_coords_to_networkx_id =
     [''1.000000,2.000000'', ''3.500000,5.000000'', ''7.307000,9.400000'']"
    by (simp add: example_node_coords_to_networkx_id_def)
  have raw: "coordinate_key 6 (row_geometry (frame_rows example_buildings_yx_gdf ! 1)) =
     ''9.400000,7.307000''"
    by (simp add: example_buildings_yx_gdf_def example_buildings_def swap_axes_def
        example_keys_yx)
  from node_index_consistent [OF ex] len upt ex c k raw show ?thesis by simp
qed

text \<open>
  C4: when several point records of the input sequence (the intersections, then the
  buildings, reprojected when the reference systems differ and the reprojection succeeds)
  have the same coordinate key, they are one node: the key has a single entry in the
  key-to-id mapping, and the details stored for its node are computed from the first record
  of the sequence with that key (its geometry, its name and its unique id); the later
  records with the key leave no trace.
\<close>

theorem first_seen_record_wins:
  assumes "prepare_graph_nodes to_crs intersections_gdf buildings_gdf name_col id_col precision =
             (m, d)"
    and "r \<in> set (all_point_rows to_crs intersections_gdf buildings_gdf)"
    and "find (\<lambda>r'. coordinate_key precision (row_geometry r') =
                     coordinate_key precision (row_geometry r))
           (all_point_rows to_crs intersections_gdf buildings_gdf) = Some r0"
  shows "\<exists>nid. map_of m (coordinate_key precision (row_geometry r)) = Some nid \<and>
               map_of d nid = Some (stored_details name_col id_col r0 nid) \<and>
               length (filter (\<lambda>e. fst e = coordinate_key precision (row_geometry r)) m) = 1 \<and>
               length (filter (\<lambda>e. fst e = nid) d) = 1"
proof -
  from prepare_graph_nodes_props(3) [OF assms(1) assms(3)] obtain nid where
    nid: "map_of m (coordinate_key precision (row_geometry r)) = Some nid"
    "map_of d nid = Some (stored_details name_col id_col r0 nid)" by blast
  from prepare_graph_nodes_props(1) [OF assms(1)]
  have dm: "distinct (map fst m)" and "map fst d = [0..<length m]"
    by (simp_all add: index_inv_def)
  then have dd: "distinct (map fst d)" by simp
  from single_entry [OF dm nid(1)] single_entry [OF dd nid(2)] nid show ?thesis by blast
qed

theorem first_seen_record_wins_witness:
  "crs example_intersections_gdf \<noteq> crs example_buildings_yx_gdf \<and>
   prepare_graph_nodes example_to_crs example_intersections_gdf example_buildings_yx_gdf
     ''Name'' ''id'' 6 =
     (example_node_coords_to_networkx_id, example_networkx_id_to_details) \<and>
   all_point_rows example_to_crs example_intersections_gdf example_buildings_yx_gdf =
     example_intersections @ example_buildings \<and>
   example_buildings ! 0 \<in> set (example_intersections @ example_buildings) \<and>
   find (\<lambda>r'. coordinate_key 6 (row_geometry r') =
               coordinate_key 6 (row_geometry (example_buildings ! 0)))
     (example_intersections @ example_buildings) = Some (example_intersections ! 0) \<and>
   map_of example_node_coords_to_networkx_id
     (coordinate_key 6 (row_geometry (example_buildings ! 0))) = Some 0 \<and>
   map_of example_networkx_id_to_details 0 =
     Some (stored_details ''Name'' ''id'' (example_intersections ! 0) 0) \<and>
   name (stored_details ''Name'' ''id'' (example_intersections ! 0) 0) = ''Main Gate''"
proof -
  note ex = example_prepare_graph_nodes(2)
  note rows = example_all_point_rows(2)
  have c: "crs example_intersections_gdf \<noteq> crs example_buildings_yx_gdf"
    by (simp add: example_intersections_gdf_def example_buildings_yx_gdf_def)
  have r: "example_buildings ! 0 \<in> set (example_intersections @ example_buildings)"
    by (simp add: example_buildings_def)
  have k: "coordinate_key 6 (row_geometry (example_buildings ! 0)) = ''1.000000,2.000000''"
    by (simp add: example_buildings_def example_keys)
  have f: "find (\<lambda>r'. coordinate_key 6 (row_geometry r') =
               coordinate_key 6 (row_geometry (example_buildings ! 0)))
     (example_intersections @ example_buildings) = Some (example_intersections ! 0)"
    unfolding k by (simp add: example_intersections_def example_keys)
  have m0: "map_of example_node_coords_to_networkx_id
     (coordinate_key 6 (row_geometry (example_buildings ! 0))) = Some 0"
    unfolding k by (simp add: example_node_coords_to_networkx_id_def)
  from first_seen_record_wins [OF ex, unfolded rows, OF r f] m0
  have d0: "map_of example_networkx_id_to_details 0 =
     Some (stored_details ''Name'' ''id'' (example_intersections ! 0) 0)" by auto
  have n: "name (stored_details ''Name'' ''id'' (example_intersections ! 0) 0) = ''Main Gate''"
    by (simp add: stored_details_def example_intersections_def example_strips)
  from c ex rows r f m0 d0 n show ?thesis by blast
qed

text \<open>
  C5 holds for an absent name or unique id: the stored value is the placeholder built from
  the id the node gets.
\<close>

lemma absent_cell_gets_placeholder:
  "row_attrs row name_col = None \<Longrightarrow>
     name (stored_details name_col id_col row nid) = ''Unnamed_Node_NX_'' @ str_nat nid"
  "row_attrs row id_col = None \<Longrightarrow>
     qgis_id (stored_details name_col id_col row nid) = ''QGIS_ID_NX_'' @ str_nat nid"
  by (simp_all add: stored_details_def)

text \<open>
  C5 fails for a blank name or unique id. The buildings are in the reference system of the
  intersections, so nothing is reprojected. The second building record of the example has
  the name \<open>"  "\<close> and the unique id \<open>""\<close>; it becomes node 2, and the index stores the
  empty string for both, where the claim expects \<open>"Unnamed_Node_NX_2"\<close> and
  \<open>"QGIS_ID_NX_2"\<close>.
\<close>

theorem blank_name_is_stored_empty:
  "frame_rows example_buildings_gdf = example_buildings \<and>
   crs example_buildings_gdf = crs example_intersections_gdf \<and>
   row_attrs (example_buildings ! 1) ''Name'' = Some ''  '' \<and>
   row_attrs (example_buildings ! 1) ''id'' = Some [] \<and>
   prepare_graph_nodes example_to_crs example_intersections_gdf example_buildings_gdf
     ''Name'' ''id'' 6 =
     (example_node_coords_to_networkx_id, example_networkx_id_to_details) \<and>
   map_of example_node_coords_to_networkx_id
     (coordinate_key 6 (row_geometry (example_buildings ! 1))) = Some 2 \<and>
   map_option name (map_of example_networkx_id_to_details 2) = Some [] \<and>
   map_option qgis_id (map_of example_networkx_id_to_details 2) = Some []"
  by (simp add: example_prepare_graph_nodes)
     (simp add: example_buildings_def example_keys example_node_coords_to_networkx_id_def
        example_networkx_id_to_details_def example_buildings_gdf_def
        example_intersections_gdf_def)

section \<open>Graph Builder: \<open>build_network_graph\<close>\<close>

datatype line_geometry = LineString "point list" | MultiLineString "point list list" | OtherGeometry

record line_row =
  line_geom :: line_geometry
  description :: "string option"

record edge_data =
  edge_geometry :: "point list"
  edge_description :: string

definition add_node :: "'n \<Rightarrow> ('n, 'a) nxgraph \<Rightarrow> ('n, 'a) nxgraph" where
  "add_node n g = (if map_of g n = None then g @ [(n, [])] else g)"

definition add_nodes_from :: "'n list \<Rightarrow> ('n, 'a) nxgraph \<Rightarrow> ('n, 'a) nxgraph" where
  "add_nodes_from ns g = fold add_node ns g"

definition add_edge :: "'n \<Rightarrow> 'n \<Rightarrow> 'a \<Rightarrow> ('n, 'a) nxgraph \<Rightarrow> ('n, 'a) nxgraph" where
  "add_edge u v datadict g =
     AList.map_entry v (AList.update u datadict)
       (AList.map_entry u (AList.update v datadict) (add_node v (add_node u g)))"

definition get_edge_data :: "('n, 'a) nxgraph \<Rightarrow> 'n \<Rightarrow> 'n \<Rightarrow> 'a option" where
  "get_edge_data g u v = (case map_of g u of None \<Rightarrow> None | Some nbrs \<Rightarrow> map_of nbrs v)"

definition add_single_line ::
  "(string \<times> nat) list \<Rightarrow> nat \<Rightarrow> string \<Rightarrow> point list \<Rightarrow> (nat, edge_data) nxgraph \<Rightarrow>
   error + (nat, edge_data) nxgraph" where
  "add_single_line node_coords_to_networkx_id precision line_description single_line G =
     (case single_line of
        [] \<Rightarrow> Inl IndexError
      | start_point_coords # _ \<Rightarrow>
          (let end_point_coords = last single_line;
               start_key = coordinate_key precision start_point_coords;
               end_key = coordinate_key precision end_point_coords
           in case (map_of node_coords_to_networkx_id start_key,
                    map_of node_coords_to_networkx_id end_key) of
                (Some u, Some v) \<Rightarrow>
                  if u \<noteq> v
                  then Inr (add_edge u v \<lparr>edge_geometry = single_line,
                                           edge_description = strip line_description\<rparr> G)
                  else Inr G
              | _ \<Rightarrow> Inr G))"

fun process_lines ::
  "(string \<times> nat) list \<Rightarrow> nat \<Rightarrow> string \<Rightarrow> point list list \<Rightarrow> (nat, edge_data) nxgraph \<Rightarrow>
   error + (nat, edge_data) nxgraph" where
  "process_lines m precision line_description [] G = Inr G"
| "process_lines m precision line_description (single_line # lines_to_process) G =
     (case add_single_line m precision line_description single_line G of
        Inl e \<Rightarrow> Inl e
      | Inr G' \<Rightarrow> process_lines m precision line_description lines_to_process G')"

fun build_loop ::
  "(string \<times> nat) list \<Rightarrow> nat \<Rightarrow> line_row list \<Rightarrow> (nat, edge_data) nxgraph \<Rightarrow>
   error + (nat, edge_data) nxgraph" where
  "build_loop m precision [] G = Inr G"
| "build_loop m precision (row # rows) G =
     (let line_description = (case description row of Some d \<Rightarrow> d | None \<Rightarrow> ''unnamed path'')
      in case line_geom row of
           LineString line \<Rightarrow>
             (case process_lines m precision line_description [line] G of
                Inl e \<Rightarrow> Inl e | Inr G' \<Rightarrow> build_loop m precision rows G')
         | MultiLineString geoms \<Rightarrow>
             (case process_lines m precision line_description geoms G of
                Inl e \<Rightarrow> Inl e | Inr G' \<Rightarrow> build_loop m precision rows G')
         | OtherGeometry \<Rightarrow> build_loop m precision rows G)"

definition build_network_graph ::
  "line_row list \<Rightarrow> (string \<times> nat) list \<Rightarrow> nat \<Rightarrow> error + (nat, edge_data) nxgraph" where
  "build_network_graph road_lines_gdf node_coords_to_networkx_id precision =
     build_loop node_coords_to_networkx_id precision road_lines_gdf
       (add_nodes_from (map snd node_coords_to_networkx_id) [])"

subsection \<open>Lookups after the graph operations\<close>

lemma has_edge_get_edge_data: "has_edge g u v \<longleftrightarrow> get_edge_data g u v \<noteq> None"
  by (simp add: has_edge_def get_edge_data_def split: option.splits)

lemma map_of_add_node:
  "map_of (add_node n g) x = (if x = n \<and> map_of g n = None then Some [] else map_of g x)"
  by (auto simp: add_node_def map_add_def split: option.splits)

lemma get_edge_data_add_node [simp]: "get_edge_data (add_node n g) x y = get_edge_data g x y"
  by (simp add: get_edge_data_def map_of_add_node)

lemma has_node_add_node [simp]: "has_node (add_node n g) x \<longleftrightarrow> x = n \<or> has_node g x"
  by (auto simp: has_node_def map_of_add_node)

lemma get_edge_data_set_entry:
  assumes "has_node g u"
  shows "get_edge_data (AList.map_entry u (AList.update v a) g) x y =
     (if x = u \<and> y = v then Some a else get_edge_data g x y)"
proof -
  from assms obtain nbrs where nbrs: "map_of g u = Some nbrs"
    by (auto simp: has_node_def)
  have m: "map_of (AList.map_entry u (AList.update v a) g) =
      (map_of g)(u \<mapsto> AList.update v a nbrs)"
    by (simp add: map_of_map_entry nbrs)
  show ?thesis
  proof (cases "x = u")
    case True
    then show ?thesis by (simp add: get_edge_data_def m nbrs update_conv')
  next
    case False
    then show ?thesis by (simp add: get_edge_data_def m)
  qed
qed

lemma has_node_map_entry [simp]: "has_node (AList.map_entry k f g) x \<longleftrightarrow> has_node g x"
  by (simp add: has_node_def map_of_eq_None_iff dom_map_entry)

lemma if_either: "(if Q then s else if P then s else t) = (if P \<or> Q then s else t)"
  by simp

lemma get_edge_data_add_edge:
  "get_edge_data (add_edge u v a g) x y =
     (if (x = u \<and> y = v) \<or> (x = v \<and> y = u) then Some a else get_edge_data g x y)"
proof -
  define g2 where "g2 = add_node v (add_node u g)"
  define g3 where "g3 = AList.map_entry u (AList.update v a) g2"
  have n2: "has_node g2 u" "has_node g2 v" by (simp_all add: g2_def)
  then have n3: "has_node g3 v" by (simp add: g3_def)
  have e2: "get_edge_data g2 x y = get_edge_data g x y" by (simp add: g2_def)
  have e3: "get_edge_data g3 x y = (if x = u \<and> y = v then Some a else get_edge_data g2 x y)"
    unfolding g3_def using n2(1) by (rule get_edge_data_set_entry)
  have e4: "get_edge_data (AList.map_entry v (AList.update u a) g3) x y =
      (if x = v \<and> y = u then Some a else get_edge_data g3 x y)"
    using n3 by (rule get_edge_data_set_entry)
  have eq: "add_edge u v a g = AList.map_entry v (AList.update u a) g3"
    unfolding add_edge_def g3_def g2_def ..
  show ?thesis unfolding eq e4 e3 e2 by (rule if_either)
qed

lemma has_node_add_edge [simp]:
  "has_node (add_edge u v a g) x \<longleftrightarrow> x = u \<or> x = v \<or> has_node g x"
  by (auto simp: add_edge_def)

subsection \<open>Well-formedness is kept by the graph operations\<close>

definition inner_distinct :: "('n, 'a) nxgraph \<Rightarrow> bool" where
  "inner_distinct g = (\<forall>(u, nbrs) \<in> set g. distinct (map fst nbrs))"

lemma nx_graph_iff:
  "nx_graph g \<longleftrightarrow>
     distinct (map fst g) \<and> inner_distinct g \<and>
     (\<forall>u v a. get_edge_data g u v = Some a \<longrightarrow> get_edge_data g v u = Some a)"
proof
  assume g: "nx_graph g"
  then have d: "distinct (map fst g)"
    and i: "\<And>u nbrs. (u, nbrs) \<in> set g \<Longrightarrow> distinct (map fst nbrs)"
    and s: "\<And>u nbrs v a. (u, nbrs) \<in> set g \<Longrightarrow> (v, a) \<in> set nbrs \<Longrightarrow>
              (case map_of g v of None \<Rightarrow> False | Some nbrs' \<Rightarrow> map_of nbrs' u = Some a)"
    unfolding nx_graph_def list_all_iff by blast+
  have "get_edge_data g v u = Some a" if "get_edge_data g u v = Some a" for u v a
  proof -
    from that obtain nbrs where "map_of g u = Some nbrs" "map_of nbrs v = Some a"
      by (auto simp: get_edge_data_def split: option.splits)
    then have "(u, nbrs) \<in> set g" "(v, a) \<in> set nbrs" by (auto dest: map_of_SomeD)
    from s [OF this] show ?thesis by (simp add: get_edge_data_def split: option.splits)
  qed
  with d i show "distinct (map fst g) \<and> inner_distinct g \<and>
     (\<forall>u v a. get_edge_data g u v = Some a \<longrightarrow> get_edge_data g v u = Some a)"
    unfolding inner_distinct_def by blast
next
  assume r: "distinct (map fst g) \<and> inner_distinct g \<and>
     (\<forall>u v a. get_edge_data g u v = Some a \<longrightarrow> get_edge_data g v u = Some a)"
  then have d: "distinct (map fst g)"
    and i: "\<And>u nbrs. (u, nbrs) \<in> set g \<Longrightarrow> distinct (map fst nbrs)"
    and s: "\<And>u v a. get_edge_data g u v = Some a \<Longrightarrow> get_edge_data g v u = Some a"
    unfolding inner_distinct_def by blast+
  have "case map_of g v of None \<Rightarrow> False | Some nbrs' \<Rightarrow> map_of nbrs' u = Some a"
    if "(u, nbrs) \<in> set g" "(v, a) \<in> set nbrs" for u nbrs v a
  proof -
    from that(1) d have "map_of g u = Some nbrs" by simp
    moreover from that i have "map_of nbrs v = Some a" by simp
    ultimately have "get_edge_data g u v = Some a" by (simp add: get_edge_data_def)
    from s [OF this] show ?thesis by (simp add: get_edge_data_def split: option.splits)
  qed
  with d i show "nx_graph g" unfolding nx_graph_def list_all_iff by blast
qed

lemma inner_distinct_add_node: "inner_distinct g \<Longrightarrow> inner_distinct (add_node n g)"
  by (auto simp: inner_distinct_def add_node_def)

lemma inner_distinct_set_entry:
  "inner_distinct g \<Longrightarrow> inner_distinct (AList.map_entry u (AList.update v a) g)"
proof (induction g)
  case Nil
  then show ?case by simp
next
  case (Cons e g)
  then have "inner_distinct g" "distinct (map fst (snd e))"
    by (auto simp: inner_distinct_def)
  with Cons.IH show ?case
    by (cases e) (auto simp: inner_distinct_def distinct_update)
qed

lemma distinct_add_node: "distinct (map fst g) \<Longrightarrow> distinct (map fst (add_node n g))"
  by (simp add: add_node_def map_of_eq_None_iff)

lemma nx_graph_add_node:
  assumes "nx_graph g"
  shows "nx_graph (add_node n g)"
proof -
  from assms have d: "distinct (map fst g)" and i: "inner_distinct g"
    and s: "\<forall>x y b. get_edge_data g x y = Some b \<longrightarrow> get_edge_data g y x = Some b"
    unfolding nx_graph_iff by blast+
  from d have "distinct (map fst (add_node n g))" by (rule distinct_add_node)
  moreover from i have "inner_distinct (add_node n g)" by (rule inner_distinct_add_node)
  moreover have "\<forall>x y b. get_edge_data (add_node n g) x y = Some b \<longrightarrow>
      get_edge_data (add_node n g) y x = Some b"
    unfolding get_edge_data_add_node by (rule s)
  ultimately show ?thesis unfolding nx_graph_iff by blast
qed

lemma nx_graph_add_nodes_from: "nx_graph g \<Longrightarrow> nx_graph (add_nodes_from ns g)"
  unfolding add_nodes_from_def by (induction ns arbitrary: g) (simp_all add: nx_graph_add_node)

lemma nx_graph_empty: "nx_graph []"
  by (simp add: nx_graph_def)

lemma nx_graph_add_edge:
  assumes "nx_graph g"
  shows "nx_graph (add_edge u v a g)"
proof -
  from assms have d: "distinct (map fst g)" and i: "inner_distinct g"
    and s: "\<And>x y b. get_edge_data g x y = Some b \<Longrightarrow> get_edge_data g y x = Some b"
    unfolding nx_graph_iff by blast+
  have "distinct (map fst (add_edge u v a g))"
    unfolding add_edge_def by (intro distinct_map_entry distinct_add_node d)
  moreover have "inner_distinct (add_edge u v a g)"
    unfolding add_edge_def by (intro inner_distinct_set_entry inner_distinct_add_node i)
  moreover have "get_edge_data (add_edge u v a g) y x = Some b"
    if "get_edge_data (add_edge u v a g) x y = Some b" for x y b
  proof (cases "(x = u \<and> y = v) \<or> (x = v \<and> y = u)")
    case True
    then have "(y = u \<and> x = v) \<or> (y = v \<and> x = u)" by blast
    with True that show ?thesis by (simp only: get_edge_data_add_edge if_True)
  next
    case False
    then have "\<not> ((y = u \<and> x = v) \<or> (y = v \<and> x = u))" by blast
    with False that s [of x y b] show ?thesis by (simp only: get_edge_data_add_edge if_False)
  qed
  ultimately show ?thesis unfolding nx_graph_iff by blast
qed

subsection \<open>The line segments in processing order\<close>

definition segment_ends :: "(string \<times> nat) list \<Rightarrow> nat \<Rightarrow> point list \<Rightarrow> (nat \<times> nat) option" where
  "segment_ends m precision single_line =
     (case single_line of
        [] \<Rightarrow> None
      | start_point_coords # _ \<Rightarrow>
          (case (map_of m (coordinate_key precision start_point_coords),
                 map_of m (coordinate_key precision (last single_line))) of
             (Some u, Some v) \<Rightarrow> if u \<noteq> v then Some (u, v) else None
           | _ \<Rightarrow> None))"

definition joins :: "(string \<times> nat) list \<Rightarrow> nat \<Rightarrow> nat \<Rightarrow> nat \<Rightarrow> point list \<Rightarrow> bool" where
  "joins m precision x y single_line =
     (segment_ends m precision single_line = Some (x, y) \<or>
      segment_ends m precision single_line = Some (y, x))"

definition segment_data :: "string \<Rightarrow> point list \<Rightarrow> edge_data" where
  "segment_data line_description single_line =
     \<lparr>edge_geometry = single_line, edge_description = strip line_description\<rparr>"

definition line_segments :: "line_row \<Rightarrow> (string \<times> point list) list" where
  "line_segments row =
     map (Pair (case description row of Some d \<Rightarrow> d | None \<Rightarrow> ''unnamed path''))
       (case line_geom row of
          LineString line \<Rightarrow> [line] | MultiLineString geoms \<Rightarrow> geoms | OtherGeometry \<Rightarrow> [])"

definition all_segments :: "line_row list \<Rightarrow> (string \<times> point list) list" where
  "all_segments rows = concat (map line_segments rows)"

fun add_segments ::
  "(string \<times> nat) list \<Rightarrow> nat \<Rightarrow> (string \<times> point list) list \<Rightarrow> (nat, edge_data) nxgraph \<Rightarrow>
   error + (nat, edge_data) nxgraph" where
  "add_segments m precision [] G = Inr G"
| "add_segments m precision ((line_description, single_line) # segments) G =
     (case add_single_line m precision line_description single_line G of
        Inl e \<Rightarrow> Inl e
      | Inr G' \<Rightarrow> add_segments m precision segments G')"

lemma add_single_line_eq:
  "add_single_line m precision line_description single_line G =
     (if single_line = [] then Inl IndexError
      else case segment_ends m precision single_line of
             Some (u, v) \<Rightarrow> Inr (add_edge u v (segment_data line_description single_line) G)
           | None \<Rightarrow> Inr G)"
  by (simp add: add_single_line_def segment_ends_def segment_data_def Let_def
           split: list.splits option.splits)

lemma process_lines_eq:
  "process_lines m precision line_description lines G =
   add_segments m precision (map (Pair line_description) lines) G"
  by (induction lines arbitrary: G) (simp_all split: sum.splits)

lemma add_segments_append:
  "add_segments m precision (xs @ ys) G =
     (case add_segments m precision xs G of
        Inl e \<Rightarrow> Inl e | Inr G' \<Rightarrow> add_segments m precision ys G')"
  by (induction xs arbitrary: G) (auto split: sum.splits)

lemma build_loop_eq:
  "build_loop m precision rows G = add_segments m precision (all_segments rows) G"
proof (induction rows arbitrary: G)
  case Nil
  then show ?case by (simp add: all_segments_def)
next
  case (Cons row rows)
  have "all_segments (row # rows) = line_segments row @ all_segments rows"
    by (simp add: all_segments_def)
  then show ?case
    by (cases "line_geom row")
       (simp_all add: add_segments_append process_lines_eq line_segments_def Cons.IH Let_def
             split: sum.splits)
qed

lemma segment_ends_Some_iff:
  "segment_ends m precision single_line = Some (u, v) \<longleftrightarrow>
     single_line \<noteq> [] \<and>
     map_of m (coordinate_key precision (hd single_line)) = Some u \<and>
     map_of m (coordinate_key precision (last single_line)) = Some v \<and> u \<noteq> v"
  by (cases single_line) (auto simp: segment_ends_def split: option.splits)

lemma joins_distinct: "joins m precision x y single_line \<Longrightarrow> x \<noteq> y"
  unfolding joins_def segment_ends_Some_iff by blast

lemma joins_commute: "joins m precision x y single_line \<longleftrightarrow> joins m precision y x single_line"
  unfolding joins_def by blast

lemma get_edge_data_add_single_line:
  assumes "add_single_line m precision line_description single_line G = Inr G'"
  shows "get_edge_data G' x y =
     (if joins m precision x y single_line then Some (segment_data line_description single_line)
      else get_edge_data G x y)"
proof (cases "segment_ends m precision single_line")
  case None
  then have "\<not> joins m precision x y single_line" by (simp add: joins_def)
  moreover from assms None have "G' = G" by (simp add: add_single_line_eq split: if_splits)
  ultimately show ?thesis by simp
next
  case (Some uv)
  obtain u v where uv: "uv = (u, v)" by (cases uv)
  from assms Some uv
  have G': "G' = add_edge u v (segment_data line_description single_line) G"
    by (simp add: add_single_line_eq split: if_splits)
  have "joins m precision x y single_line \<longleftrightarrow> (x = u \<and> y = v) \<or> (x = v \<and> y = u)"
    unfolding joins_def Some uv by blast
  then show ?thesis unfolding G' get_edge_data_add_edge by (simp only:)
qed

lemma get_edge_data_add_segments_unchanged:
  "add_segments m precision segments G = Inr G' \<Longrightarrow>
   \<forall>seg \<in> set segments. \<not> joins m precision x y (snd seg) \<Longrightarrow>
   get_edge_data G' x y = get_edge_data G x y"
proof (induction segments arbitrary: G)
  case Nil
  then show ?case by simp
next
  case (Cons seg segments)
  obtain line_description single_line where seg: "seg = (line_description, single_line)"
    by (cases seg)
  from Cons.prems(1) obtain G1 where
    1: "add_single_line m precision line_description single_line G = Inr G1"
    and 2: "add_segments m precision segments G1 = Inr G'"
    by (auto simp: seg split: sum.splits)
  from Cons.prems(2) have n: "\<not> joins m precision x y single_line"
    and r: "\<forall>seg \<in> set segments. \<not> joins m precision x y (snd seg)"
    by (simp_all add: seg)
  from get_edge_data_add_single_line [OF 1, of x y] n
  have "get_edge_data G1 x y = get_edge_data G x y" by simp
  with Cons.IH [OF 2 r] show ?case by simp
qed

lemma get_edge_data_add_segments_last:
  assumes "add_segments m precision (before @ (line_description, single_line) # after) G = Inr G'"
    and "joins m precision x y single_line"
    and "\<forall>seg \<in> set after. \<not> joins m precision x y (snd seg)"
  shows "get_edge_data G' x y = Some (segment_data line_description single_line)"
proof -
  from assms(1) obtain G1 G2 where
    "add_segments m precision before G = Inr G1"
    and 1: "add_single_line m precision line_description single_line G1 = Inr G2"
    and 2: "add_segments m precision after G2 = Inr G'"
    by (auto simp: add_segments_append split: sum.splits)
  from get_edge_data_add_single_line [OF 1, of x y] assms(2)
  have "get_edge_data G2 x y = Some (segment_data line_description single_line)" by simp
  with get_edge_data_add_segments_unchanged [OF 2 assms(3)] show ?thesis by simp
qed

lemma nx_graph_add_segments:
  "nx_graph G \<Longrightarrow> add_segments m precision segments G = Inr G' \<Longrightarrow> nx_graph G'"
proof (induction segments arbitrary: G)
  case Nil
  then show ?case by simp
next
  case (Cons seg segments)
  obtain line_description single_line where seg: "seg = (line_description, single_line)"
    by (cases seg)
  from Cons.prems(2) obtain G1 where
    1: "add_single_line m precision line_description single_line G = Inr G1"
    and 2: "add_segments m precision segments G1 = Inr G'"
    by (auto simp: seg split: sum.splits)
  from 1 Cons.prems(1) have "nx_graph G1"
    by (auto simp: add_single_line_eq nx_graph_add_edge split: if_splits option.splits)
  from Cons.IH [OF this 2] show ?case .
qed

lemma add_segments_total:
  "\<forall>seg \<in> set segments. snd seg \<noteq> [] \<Longrightarrow> \<exists>G'. add_segments m precision segments G = Inr G'"
proof (induction segments arbitrary: G)
  case Nil
  then show ?case by simp
next
  case (Cons seg segments)
  obtain line_description single_line where seg: "seg = (line_description, single_line)"
    by (cases seg)
  from Cons.prems have "single_line \<noteq> []" by (simp add: seg)
  then obtain G1 where "add_single_line m precision line_description single_line G = Inr G1"
    by (cases "segment_ends m precision single_line") (auto simp: add_single_line_eq)
  moreover from Cons.prems have "\<forall>seg \<in> set segments. snd seg \<noteq> []" by simp
  from Cons.IH [OF this, of G1] obtain G' where "add_segments m precision segments G1 = Inr G'" ..
  ultimately show ?case by (simp add: seg)
qed

lemma get_edge_data_add_nodes_from [simp]:
  "get_edge_data (add_nodes_from ns g) x y = get_edge_data g x y"
  unfolding add_nodes_from_def by (induction ns arbitrary: g) simp_all

lemma build_network_graph_eq:
  "build_network_graph rows m precision =
   add_segments m precision (all_segments rows) (add_nodes_from (map snd m) [])"
  by (simp add: build_network_graph_def build_loop_eq)

lemma nx_graph_build_network_graph:
  "build_network_graph rows m precision = Inr G \<Longrightarrow> nx_graph G"
  unfolding build_network_graph_eq
  by (rule nx_graph_add_segments [OF nx_graph_add_nodes_from [OF nx_graph_empty]])

lemma has_edge_build_network_graph:
  assumes "build_network_graph rows m precision = Inr G" "has_edge G u v"
  shows "\<exists>seg \<in> set (all_segments rows). joins m precision u v (snd seg)"
proof (rule ccontr)
  assume "\<not> (\<exists>seg \<in> set (all_segments rows). joins m precision u v (snd seg))"
  then have "\<forall>seg \<in> set (all_segments rows). \<not> joins m precision u v (snd seg)" by blast
  from get_edge_data_add_segments_unchanged [OF assms(1) [unfolded build_network_graph_eq] this]
  have "get_edge_data G u v = get_edge_data [] u v" by simp
  then have "get_edge_data G u v = None" by (simp add: get_edge_data_def)
  with assms(2) show False by (simp add: has_edge_get_edge_data)
qed

subsection \<open>A worked example\<close>

definition example_road_lines :: "line_row list" where
  "example_road_lines =
     [\<lparr>line_geom = LineString [(0x3FF0000000000000, 0x4000000000000000),
                               (0x400C000000000000, 0x4014000000000000)],
       description = Some '' Main Road ''\<rparr>,
      \<lparr>line_geom = LineString [(0x400C000000000000, 0x4014000000000000),
                               (0x4000000000000000, 0x4000000000000000),
                               (0x3FF000001AD7F29B, 0x4000000000000000)],
       description = Some ''Back Lane''\<rparr>,
      \<lparr>line_geom = MultiLineString
         [[(0x400C000000000000, 0x4014000000000000), (0x401D3A5E353F7CEE, 0x4022CCCCCCCCCCCD)],
          [(0x400C000000000000, 0x4014000000000000), (0x400C000000000000, 0x4014000000000000)],
          [(0x3FF0000000000000, 0x4000000000000000), (0x4014000000000000, 0x4014000000000000)]],
       description = None\<rparr>,
      \<lparr>line_geom = OtherGeometry, description = Some ''pond''\<rparr>]"

definition example_graph :: "(nat, edge_data) nxgraph" where
  "example_graph =
     [(0, [(1, \<lparr>edge_geometry = [(0x400C000000000000, 0x4014000000000000),
                                   (0x4000000000000000, 0x4000000000000000),
                                   (0x3FF000001AD7F29B, 0x4000000000000000)],
               edge_description = ''Back Lane''\<rparr>)]),
      (1, [(0, \<lparr>edge_geometry = [(0x400C000000000000, 0x4014000000000000),
                                   (0x4000000000000000, 0x4000000000000000),
                                   (0x3FF000001AD7F29B, 0x4000000000000000)],
               edge_description = ''Back Lane''\<rparr>),
           (2, \<lparr>edge_geometry = [(0x400C000000000000, 0x4014000000000000),
                                   (0x401D3A5E353F7CEE, 0x4022CCCCCCCCCCCD)],
               edge_description = ''unnamed path''\<rparr>)]),
      (2, [(1, \<lparr>edge_geometry = [(0x400C000000000000, 0x4014000000000000),
                                   (0x401D3A5E353F7CEE, 0x4022CCCCCCCCCCCD)],
               edge_description = ''unnamed path''\<rparr>)])]"

lemma example_key_unresolved:
  "coordinate_key 6 (0x4014000000000000, 0x4014000000000000) = ''5.000000,5.000000''"
  by (simp add: coordinate_key_def format_f_eval)

lemma example_strips_lines:
  "strip '' Main Road '' = ''Main Road''" "strip ''Back Lane'' = ''Back Lane''"
  "strip ''unnamed path'' = ''unnamed path''"
  by (simp_all add: strip_def isspace_def)

lemma example_all_segments:
  "all_segments example_road_lines =
     [('' Main Road '', [(0x3FF0000000000000, 0x4000000000000000),
                         (0x400C000000000000, 0x4014000000000000)]),
      (''Back Lane'', [(0x400C000000000000, 0x4014000000000000),
                       (0x4000000000000000, 0x4000000000000000),
                       (0x3FF000001AD7F29B, 0x4000000000000000)]),
      (''unnamed path'', [(0x400C000000000000, 0x4014000000000000),
                          (0x401D3A5E353F7CEE, 0x4022CCCCCCCCCCCD)]),
      (''unnamed path'', [(0x400C000000000000, 0x4014000000000000),
                          (0x400C000000000000, 0x4014000000000000)]),
      (''unnamed path'', [(0x3FF0000000000000, 0x4000000000000000),
                          (0x4014000000000000, 0x4014000000000000)])]"
  by (simp add: all_segments_def line_segments_def example_road_lines_def)

lemma example_segment_ends:
  "segment_ends example_node_coords_to_networkx_id 6
     [(0x3FF0000000000000, 0x4000000000000000), (0x400C000000000000, 0x4014000000000000)]
     = Some (0, 1)"
  "segment_ends example_node_coords_to_networkx_id 6
     [(0x400C000000000000, 0x4014000000000000), (0x4000000000000000, 0x4000000000000000),
      (0x3FF000001AD7F29B, 0x4000000000000000)] = Some (1, 0)"
  "segment_ends example_node_coords_to_networkx_id 6
     [(0x400C000000000000, 0x4014000000000000), (0x401D3A5E353F7CEE, 0x4022CCCCCCCCCCCD)]
     = Some (1, 2)"
  "segment_ends example_node_coords_to_networkx_id 6
     [(0x400C000000000000, 0x4014000000000000), (0x400C000000000000, 0x4014000000000000)]
     = None"
  "segment_ends example_node_coords_to_networkx_id 6
     [(0x3FF0000000000000, 0x4000000000000000), (0x4014000000000000, 0x4014000000000000)]
     = None"
  by (simp_all add: segment_ends_def example_keys example_key_unresolved
        example_node_coords_to_networkx_id_def)

lemma example_initial_graph:
  "add_nodes_from (map snd example_node_coords_to_networkx_id) [] =
     ([(0, []), (1, []), (2, [])] :: (nat, edge_data) nxgraph)"
  by (simp add: add_nodes_from_def add_node_def example_node_coords_to_networkx_id_def)

lemma example_build_network_graph:
  "build_network_graph example_road_lines example_node_coords_to_networkx_id 6 =
     Inr example_graph"
  by (simp add: build_network_graph_eq example_all_segments example_initial_graph
        add_single_line_eq example_segment_ends segment_data_def example_strips_lines
        add_edge_def add_node_def example_graph_def)

subsection \<open>Properties of the Graph Builder\<close>

lemma add_single_line_dropped:
  assumes "single_line \<noteq> []"
    and "map_of m (coordinate_key precision (hd single_line)) = None \<or>
         map_of m (coordinate_key precision (last single_line)) = None \<or>
         map_of m (coordinate_key precision (hd single_line)) =
           map_of m (coordinate_key precision (last single_line))"
  shows "add_single_line m precision line_description single_line G = Inr G"
proof -
  have "segment_ends m precision single_line = None"
  proof (cases "segment_ends m precision single_line")
    case None
    then show ?thesis .
  next
    case (Some uv)
    obtain u v where "uv = (u, v)" by (cases uv)
    with Some have "segment_ends m precision single_line = Some (u, v)" by simp
    then have "map_of m (coordinate_key precision (hd single_line)) = Some u"
      "map_of m (coordinate_key precision (last single_line)) = Some v" "u \<noteq> v"
      unfolding segment_ends_Some_iff by blast+
    with assms(2) show ?thesis by auto
  qed
  with assms(1) show ?thesis by (simp add: add_single_line_eq)
qed

text \<open>
  C6: for every collection of line records, the graph that the Graph Builder returns has
  no edge from a node to itself, and each of its edges comes from a processed segment whose
  first and last coordinates both resolve, through the coordinate key, to the two (distinct)
  end nodes of the edge. A segment (with coordinates) one of whose ends does not resolve, or
  whose two ends resolve to the same node, is dropped: processing it returns the graph
  unchanged and raises nothing. The build returns a graph whenever every segment has
  coordinates.
\<close>

theorem graph_builder_drops_unresolved_and_degenerate:
  "(build_network_graph road_lines_gdf m precision = Inr G \<longrightarrow>
      \<not> has_edge G u u \<and>
      (has_edge G u v \<longrightarrow>
         (\<exists>seg \<in> set (all_segments road_lines_gdf). snd seg \<noteq> [] \<and> u \<noteq> v \<and>
            (map_of m (coordinate_key precision (hd (snd seg))) = Some u \<and>
             map_of m (coordinate_key precision (last (snd seg))) = Some v \<or>
             map_of m (coordinate_key precision (hd (snd seg))) = Some v \<and>
             map_of m (coordinate_key precision (last (snd seg))) = Some u)))) \<and>
   (single_line \<noteq> [] \<and>
      (map_of m (coordinate_key precision (hd single_line)) = None \<or>
       map_of m (coordinate_key precision (last single_line)) = None \<or>
       map_of m (coordinate_key precision (hd single_line)) =
         map_of m (coordinate_key precision (last single_line))) \<longrightarrow>
      add_single_line m precision line_description single_line G0 = Inr G0) \<and>
   ((\<forall>seg \<in> set (all_segments road_lines_gdf). snd seg \<noteq> []) \<longrightarrow>
      (\<exists>G'. build_network_graph road_lines_gdf m precision = Inr G'))"
proof (intro conjI impI)
  assume b: "build_network_graph road_lines_gdf m precision = Inr G"
  show "\<not> has_edge G u u"
  proof
    assume "has_edge G u u"
    from has_edge_build_network_graph [OF b this] obtain seg :: "string \<times> point list" where
      "joins m precision u u (snd seg)" by blast
    then show False by (auto dest: joins_distinct)
  qed
  assume "has_edge G u v"
  from has_edge_build_network_graph [OF b this] obtain seg where
    seg: "seg \<in> set (all_segments road_lines_gdf)" and j: "joins m precision u v (snd seg)"
    by blast
  from j have "snd seg \<noteq> [] \<and> u \<noteq> v \<and>
            (map_of m (coordinate_key precision (hd (snd seg))) = Some u \<and>
             map_of m (coordinate_key precision (last (snd seg))) = Some v \<or>
             map_of m (coordinate_key precision (hd (snd seg))) = Some v \<and>
             map_of m (coordinate_key precision (last (snd seg))) = Some u)"
    unfolding joins_def segment_ends_Some_iff by blast
  with seg show "\<exists>seg \<in> set (all_segments road_lines_gdf). snd seg \<noteq> [] \<and> u \<noteq> v \<and>
            (map_of m (coordinate_key precision (hd (snd seg))) = Some u \<and>
             map_of m (coordinate_key precision (last (snd seg))) = Some v \<or>
             map_of m (coordinate_key precision (hd (snd seg))) = Some v \<and>
             map_of m (coordinate_key precision (last (snd seg))) = Some u)" by blast
next
  assume "single_line \<noteq> [] \<and>
      (map_of m (coordinate_key precision (hd single_line)) = None \<or>
       map_of m (coordinate_key precision (last single_line)) = None \<or>
       map_of m (coordinate_key precision (hd single_line)) =
         map_of m (coordinate_key precision (last single_line)))"
  then show "add_single_line m precision line_description single_line G0 = Inr G0"
    using add_single_line_dropped by blast
next
  assume "\<forall>seg \<in> set (all_segments road_lines_gdf). snd seg \<noteq> []"
  then show "\<exists>G'. build_network_graph road_lines_gdf m precision = Inr G'"
    unfolding build_network_graph_eq by (rule add_segments_total)
qed

theorem graph_builder_drops_unresolved_and_degenerate_witness:
  "build_network_graph example_road_lines example_node_coords_to_networkx_id 6 =
     Inr example_graph \<and>
   \<not> has_edge example_graph 1 1 \<and>
   has_edge example_graph 1 2 \<and>
   (\<exists>seg \<in> set (all_segments example_road_lines).
       map_of example_node_coords_to_networkx_id (coordinate_key 6 (hd (snd seg))) = Some 1 \<and>
       map_of example_node_coords_to_networkx_id (coordinate_key 6 (last (snd seg))) = Some 2) \<and>
   map_of example_node_coords_to_networkx_id
     (coordinate_key 6 (0x4014000000000000, 0x4014000000000000)) = None \<and>
   add_single_line example_node_coords_to_networkx_id 6 ''unnamed path''
     [(0x3FF0000000000000, 0x4000000000000000), (0x4014000000000000, 0x4014000000000000)]
     example_graph = Inr example_graph"
proof -
  note b = example_build_network_graph
  note T = graph_builder_drops_unresolved_and_degenerate
    [of example_road_lines example_node_coords_to_networkx_id 6 example_graph 1 2
        "[(0x3FF0000000000000, 0x4000000000000000), (0x4014000000000000, 0x4014000000000000)]"
        "''unnamed path''" example_graph]
  have e12: "has_edge example_graph 1 2" by (simp add: has_edge_def example_graph_def)
  have un: "map_of example_node_coords_to_networkx_id
     (coordinate_key 6 (0x4014000000000000, 0x4014000000000000)) = None"
    by (simp add: example_key_unresolved example_node_coords_to_networkx_id_def)
  from T b have "\<not> has_edge example_graph 1 1" by blast
  moreover from T b e12 have "\<exists>seg \<in> set (all_segments example_road_lines).
       map_of example_node_coords_to_networkx_id (coordinate_key 6 (hd (snd seg))) = Some 1 \<and>
       map_of example_node_coords_to_networkx_id (coordinate_key 6 (last (snd seg))) = Some 2"
    unfolding example_all_segments
    by (simp add: example_keys example_key_unresolved example_node_coords_to_networkx_id_def)
  moreover from T un have "add_single_line example_node_coords_to_networkx_id 6 ''unnamed path''
     [(0x3FF0000000000000, 0x4000000000000000), (0x4014000000000000, 0x4014000000000000)]
     example_graph = Inr example_graph" by simp
  ultimately show ?thesis using b e12 un by blast
qed

text \<open>
  C7: when several processed segments resolve to the same unordered pair of nodes, the
  attributes stored for the edge are those of the last such segment in processing order (its
  geometry and its trimmed description), the same in both directions, and the adjacency of
  each of the two nodes holds one entry for the other: the graph has one edge for the pair.
\<close>

theorem last_segment_overwrites_edge:
  assumes "build_network_graph road_lines_gdf m precision = Inr G"
    and "all_segments road_lines_gdf = before @ (line_description, single_line) # after"
    and "segment_ends m precision single_line = Some (u, v)"
    and "\<forall>seg \<in> set after. segment_ends m precision (snd seg) \<noteq> Some (u, v) \<and>
                           segment_ends m precision (snd seg) \<noteq> Some (v, u)"
  shows "get_edge_data G u v =
           Some \<lparr>edge_geometry = single_line, edge_description = strip line_description\<rparr> \<and>
         get_edge_data G v u =
           Some \<lparr>edge_geometry = single_line, edge_description = strip line_description\<rparr> \<and>
         (\<exists>nbrs. map_of G u = Some nbrs \<and> length (filter (\<lambda>e. fst e = v) nbrs) = 1) \<and>
         (\<exists>nbrs. map_of G v = Some nbrs \<and> length (filter (\<lambda>e. fst e = u) nbrs) = 1) \<and>
         length (filter (\<lambda>e. fst e = u) G) = 1 \<and> length (filter (\<lambda>e. fst e = v) G) = 1"
proof -
  note run = assms(1) [unfolded build_network_graph_eq assms(2)]
  have j: "joins m precision u v single_line" "joins m precision v u single_line"
    using assms(3) by (simp_all add: joins_def)
  have n: "\<forall>seg \<in> set after. \<not> joins m precision u v (snd seg)"
    "\<forall>seg \<in> set after. \<not> joins m precision v u (snd seg)"
    using assms(4) unfolding joins_def by blast+
  have uv: "get_edge_data G u v = Some (segment_data line_description single_line)"
    using run j(1) n(1) by (rule get_edge_data_add_segments_last)
  have vu: "get_edge_data G v u = Some (segment_data line_description single_line)"
    using run j(2) n(2) by (rule get_edge_data_add_segments_last)
  from nx_graph_build_network_graph [OF assms(1)]
  have d: "distinct (map fst G)" and i: "inner_distinct G"
    unfolding nx_graph_iff by blast+
  have one: "(\<exists>nbrs. map_of G x = Some nbrs \<and> length (filter (\<lambda>e. fst e = y) nbrs) = 1) \<and>
      length (filter (\<lambda>e. fst e = x) G) = 1"
    if "get_edge_data G x y = Some a" for x y a
  proof -
    from that obtain nbrs where nbrs: "map_of G x = Some nbrs" "map_of nbrs y = Some a"
      by (auto simp: get_edge_data_def split: option.splits)
    then have "(x, nbrs) \<in> set G" by (auto dest: map_of_SomeD)
    with i have "distinct (map fst nbrs)" unfolding inner_distinct_def by blast
    from single_entry [OF this nbrs(2)] single_entry [OF d nbrs(1)] nbrs(1)
    show ?thesis by blast
  qed
  from one [OF uv] one [OF vu] uv vu show ?thesis
    unfolding segment_data_def by blast
qed

theorem last_segment_overwrites_edge_witness:
  "build_network_graph example_road_lines example_node_coords_to_networkx_id 6 =
     Inr example_graph \<and>
   segment_ends example_node_coords_to_networkx_id 6 (snd (all_segments example_road_lines ! 0))
     = Some (0, 1) \<and>
   segment_ends example_node_coords_to_networkx_id 6 (snd (all_segments example_road_lines ! 1))
     = Some (1, 0) \<and>
   get_edge_data example_graph 1 0 =
     Some \<lparr>edge_geometry = snd (all_segments example_road_lines ! 1),
           edge_description = ''Back Lane''\<rparr> \<and>
   get_edge_data example_graph 0 1 =
     Some \<lparr>edge_geometry = snd (all_segments example_road_lines ! 1),
           edge_description = ''Back Lane''\<rparr>"
proof -
  note b = example_build_network_graph
  let ?before = "[('' Main Road '', [(0x3FF0000000000000, 0x4000000000000000),
                         (0x400C000000000000, 0x4014000000000000 :: float64)])]"
  let ?line = "[(0x400C000000000000, 0x4014000000000000),
                       (0x4000000000000000, 0x4000000000000000),
                       (0x3FF000001AD7F29B, 0x4000000000000000 :: float64)]"
  let ?after = "[(''unnamed path'', [(0x400C000000000000, 0x4014000000000000),
                          (0x401D3A5E353F7CEE, 0x4022CCCCCCCCCCCD :: float64)]),
      (''unnamed path'', [(0x400C000000000000, 0x4014000000000000),
                          (0x400C000000000000, 0x4014000000000000)]),
      (''unnamed path'', [(0x3FF0000000000000, 0x4000000000000000),
                          (0x4014000000000000, 0x4014000000000000)])]"
  have s: "all_segments example_road_lines = ?before @ (''Back Lane'', ?line) # ?after"
    by (simp add: example_all_segments)
  have e: "segment_ends example_node_coords_to_networkx_id 6 ?line = Some (1, 0)"
    by (rule example_segment_ends(2))
  have a: "\<forall>seg \<in> set ?after.
      segment_ends example_node_coords_to_networkx_id 6 (snd seg) \<noteq> Some (1, 0) \<and>
      segment_ends example_node_coords_to_networkx_id 6 (snd seg) \<noteq> Some (0, 1)"
    by (simp add: example_segment_ends)
  from last_segment_overwrites_edge [OF b s e a]
  have "get_edge_data example_graph 1 0 =
      Some \<lparr>edge_geometry = ?line, edge_description = ''Back Lane''\<rparr>"
    and "get_edge_data example_graph 0 1 =
      Some \<lparr>edge_geometry = ?line, edge_description = ''Back Lane''\<rparr>"
    by (simp_all add: example_strips_lines)
  then show ?thesis using b
    by (simp add: example_all_segments example_segment_ends)
qed

end
